theory Spec2Isabelle
  imports Main "HOL-Library.Sublist"
begin


section \<open>Data model (types.ts)\<close>

text \<open>
  A JavaScript string is modelled by the list of its code units, one \<open>char\<close> for the code
  unit of the same number: the strings of the model are the strings whose code units are
  below 256.

  A browser \<open>File\<close> is external to the program. The model keeps the two things the code
  reads from it: its \<open>type\<close> and the string that \<open>FileReader.readAsDataURL\<close> delivers. The
  files of the model are those whose read succeeds (after a read that fails
  \<open>reader.result\<close> is \<open>null\<close>, the \<open>onloadend\<close> callback of \<open>fileToGenerativePart\<close> throws
  and its promise is never settled).
\<close>

record File =
  ftype :: string
  dataURL :: string

record ImageFile =
  file_i :: File
  previewUrl :: string

text \<open>
  \<open>ResultState\<close>: field \<open>id\<close> is written \<open>id_r\<close>. \<open>currentIndex\<close> is a JavaScript number that
  the code only ever moves in whole steps, hence an integer (it may be negative as far as
  the type goes).
\<close>

record ResultState =
  id_r :: string
  imageHistory :: "string list"
  currentIndex :: int
  refinementPrompt :: string

record HistoryItem =
  id_h :: string
  results_h :: "ResultState list"

section \<open>JavaScript library functions used by the code\<close>

text \<open>\<open>xs[i]\<close>: \<open>undefined\<close> (here \<open>None\<close>) outside the array.\<close>

definition jsIndex :: "'a list \<Rightarrow> int \<Rightarrow> 'a option" where
  "jsIndex xs i = (if 0 \<le> i \<and> i < int (length xs) then Some (xs ! nat i) else None)"

text \<open>\<open>xs.slice(0, e)\<close>: a negative end counts from the back, and the end is clamped.\<close>

definition slice0 :: "'a list \<Rightarrow> int \<Rightarrow> 'a list" where
  "slice0 xs e =
     (let len = int (length xs);
          k = (if e < 0 then max (len + e) 0 else min e len)
      in take (nat k) xs)"

text \<open>\<open>xs.findIndex(p)\<close>: the first index whose element satisfies \<open>p\<close>, or \<open>-1\<close>.\<close>

fun findIndexFrom :: "int \<Rightarrow> ('a \<Rightarrow> bool) \<Rightarrow> 'a list \<Rightarrow> int" where
  "findIndexFrom i p [] = -1"
| "findIndexFrom i p (x # xs) = (if p x then i else findIndexFrom (i + 1) p xs)"

definition findIndex :: "('a \<Rightarrow> bool) \<Rightarrow> 'a list \<Rightarrow> int" where
  "findIndex p xs = findIndexFrom 0 p xs"

text \<open>\<open>xs.map((x, index) => f(x, index))\<close>; the index counts from 0.\<close>

fun mapIndexFrom :: "nat \<Rightarrow> ('a \<Rightarrow> nat \<Rightarrow> 'b) \<Rightarrow> 'a list \<Rightarrow> 'b list" where
  "mapIndexFrom i f [] = []"
| "mapIndexFrom i f (x # xs) = f x i # mapIndexFrom (i + 1) f xs"

definition mapIndex :: "('a \<Rightarrow> nat \<Rightarrow> 'b) \<Rightarrow> 'a list \<Rightarrow> 'b list" where
  "mapIndex f xs = mapIndexFrom 0 f xs"

text \<open>
  \<open>s.trim()\<close> strips white space and line terminators from both ends. Of the code units
  below 256 these are tab, line feed, vertical tab, form feed, carriage return, space and
  the no-break space U+00A0; the others that \<open>trim\<close> strips (U+FEFF, U+2028, U+2029 and
  the space separators from U+1680 on) are code units above 255.
\<close>

definition isWhiteSpace :: "char \<Rightarrow> bool" where
  "isWhiteSpace c =
     (c \<in> set [CHR 0x09, CHR 0x0A, CHR 0x0B, CHR 0x0C, CHR 0x0D, CHR 0x20, CHR 0xA0])"

definition trim :: "string \<Rightarrow> string" where
  "trim s = rev (dropWhile isWhiteSpace (rev (dropWhile isWhiteSpace s)))"

text \<open>
  \<open>s.indexOf(c)\<close> for a one-character \<open>c\<close>, \<open>s.substring(a, b)\<close> (both ends clamped to
  the string, swapped when \<open>a > b\<close>) and \<open>s.split(c)\<close> for a one-character separator.
\<close>

definition indexOf :: "string \<Rightarrow> char \<Rightarrow> int" where
  "indexOf s c = findIndex (\<lambda>x. x = c) s"

definition substring :: "string \<Rightarrow> int \<Rightarrow> int \<Rightarrow> string" where
  "substring s a b =
     (let len = int (length s);
          a' = min (max a 0) len;
          b' = min (max b 0) len;
          lo = min a' b';
          hi = max a' b'
      in take (nat (hi - lo)) (drop (nat lo) s))"

fun split :: "string \<Rightarrow> char \<Rightarrow> string list" where
  "split [] c = [[]]"
| "split (x # xs) c =
     (if x = c then [] # split xs c
      else (case split xs c of [] \<Rightarrow> [[x]] | y # ys \<Rightarrow> (x # y) # ys))"

text \<open>A template literal prints a missing value as \<open>undefined\<close>.\<close>

definition str :: "string option \<Rightarrow> string" where
  "str v = (case v of None \<Rightarrow> ''undefined'' | Some s \<Rightarrow> s)"

text \<open>Decimal digits of a number, as a template literal prints it.\<close>

fun showNat :: "nat \<Rightarrow> string" where
  "showNat n =
     (if n < 10 then [''0123456789'' ! n]
      else showNat (n div 10) @ [''0123456789'' ! (n mod 10)])"

declare showNat.simps [simp del]

section \<open>The generation service (services/geminiService.ts)\<close>

subsection \<open>The boundary to the remote API\<close>

text \<open>
  The shapes the code builds and reads: a part carries inline data or text, a response
  carries optional candidates, a candidate an optional content, a content optional parts.
  What is thrown or rejected is an \<open>Error\<close> with a message, a \<open>TypeError\<close>, or a value that
  is no \<open>Error\<close>.
\<close>

datatype exn = Error string | TypeError string | NonError

record Blob =
  data :: "string option"
  mimeType :: "string option"

record Part =
  inlineData :: "Blob option"
  text_p :: "string option"

record Content =
  parts :: "Part list option"

record Candidate =
  content :: "Content option"

record Response =
  candidates :: "Candidate list option"

datatype Modality = IMAGE | TEXT

record Config =
  responseModalities :: "Modality list"

record Request =
  model :: string
  contents :: Content
  config :: Config

datatype Outcome = Resolved Response | Rejected exn

text \<open>
  The environment: \<open>process.env.API_KEY\<close>, and the remote model. The remote model is not
  a function of the request (the same request may be answered differently each time), so
  it also gets the number of calls issued before this one. \<open>settledAt k\<close> is the time at
  which the promise of call number \<open>k\<close> settles.
\<close>

record Env =
  API_KEY :: "string option"
  generateContent :: "nat \<Rightarrow> Request \<Rightarrow> Outcome"
  settledAt :: "nat \<Rightarrow> nat"

text \<open>
  The module state: the lazily built client \<open>ai\<close> (holding its key), and a log of the
  requests sent so far, which the code does not keep but the properties speak about.
\<close>

record Svc =
  ai :: "string option"
  calls :: "Request list"

definition inlinePart :: "string option \<Rightarrow> string option \<Rightarrow> Part" where
  "inlinePart d m = \<lparr>inlineData = Some \<lparr>data = d, mimeType = m\<rparr>, text_p = None\<rparr>"

definition textPart :: "string \<Rightarrow> Part" where
  "textPart t = \<lparr>inlineData = None, text_p = Some t\<rparr>"

definition fileToGenerativePart :: "File \<Rightarrow> Part" where
  "fileToGenerativePart f = inlinePart (jsIndex (split (dataURL f) CHR '','') 1) (Some (ftype f))"

definition getAi :: "Env \<Rightarrow> Svc \<Rightarrow> exn + Svc" where
  "getAi env svc =
     (if ai svc = None then
        (if API_KEY env = None \<or> API_KEY env = Some []
         then Inl (Error ''API_KEY environment variable is not set.'')
         else Inr (svc\<lparr>ai := API_KEY env\<rparr>))
      else Inr svc)"

definition request :: "Part list \<Rightarrow> Request" where
  "request ps =
     \<lparr>model = ''gemini-2.5-flash-image'',
      contents = \<lparr>parts = Some ps\<rparr>,
      config = \<lparr>responseModalities = [IMAGE, TEXT]\<rparr>\<rparr>"

text \<open>\<open>aiInstance.models.generateContent(req)\<close>: the request goes out, an outcome comes back.\<close>

definition callApi :: "Env \<Rightarrow> Svc \<Rightarrow> Request \<Rightarrow> Svc \<times> Outcome" where
  "callApi env svc req =
     (svc\<lparr>calls := calls svc @ [req]\<rparr>, generateContent env (length (calls svc)) req)"

text \<open>
  \<open>response.candidates?.[0]?.content?.parts.find(p => p.inlineData)\<close>, then its
  \<open>inlineData\<close>. The chain guards \<open>candidates\<close>, its first element and \<open>content\<close>, but not
  \<open>parts\<close>: on a content without parts, \<open>.find\<close> is read off \<open>undefined\<close> and a \<open>TypeError\<close>
  is thrown (its message depends on the engine).
\<close>

definition findImageData :: "Response \<Rightarrow> exn + Blob option" where
  "findImageData response =
     (case candidates response of
        None \<Rightarrow> Inr None
      | Some cs \<Rightarrow>
          (case jsIndex cs 0 of
             None \<Rightarrow> Inr None
           | Some c \<Rightarrow>
               (case content c of
                  None \<Rightarrow> Inr None
                | Some ct \<Rightarrow>
                    (case parts ct of
                       None \<Rightarrow> Inl (TypeError ''Cannot read properties of undefined (reading 'find')'')
                     | Some ps \<Rightarrow>
                         (case find (\<lambda>p. inlineData p \<noteq> None) ps of
                            None \<Rightarrow> Inr None
                          | Some imagePart \<Rightarrow> Inr (inlineData imagePart))))))"

definition dataUrl :: "Blob \<Rightarrow> string" where
  "dataUrl b = ''data:'' @ str (mimeType b) @ '';base64,'' @ str (data b)"

text \<open>
  The callback of \<open>responses.map\<close> in \<open>generatePhotos\<close>: the data URL of the image of a
  response, \<open>null\<close> when it has none.
\<close>

definition imageUrlOf :: "Response \<Rightarrow> exn + string option" where
  "imageUrlOf response =
     (case findImageData response of
        Inl e \<Rightarrow> Inl e
      | Inr None \<Rightarrow> Inr None
      | Inr (Some b) \<Rightarrow> Inr (Some (dataUrl b)))"

subsection \<open>generatePhotos\<close>

text \<open>
  The loop \<open>for (i = 0; i < numberOfImages; i++)\<close> that sends the same request each time
  and collects the promises: each with the time at which it settles, and its outcome.
\<close>

fun issueCalls :: "Env \<Rightarrow> nat \<Rightarrow> Request \<Rightarrow> Svc \<Rightarrow> Svc \<times> (nat \<times> Outcome) list" where
  "issueCalls env 0 req svc = (svc, [])"
| "issueCalls env (Suc n) req svc =
     (let (svc1, out) = callApi env svc req;
          (svc2, outs) = issueCalls env n req svc1
      in (svc2, (settledAt env (length (calls svc)), out) # outs))"

text \<open>
  \<open>Promise.all\<close>: when a promise is rejected, the rejection of the one that settles first
  (of two settling at the same time, the one earlier in the array); otherwise the
  responses in the order of the promises.
\<close>

fun earliestRejection :: "(nat \<times> Outcome) list \<Rightarrow> (nat \<times> exn) option" where
  "earliestRejection [] = None"
| "earliestRejection ((t, Resolved r) # ps) = earliestRejection ps"
| "earliestRejection ((t, Rejected e) # ps) =
     (case earliestRejection ps of
        None \<Rightarrow> Some (t, e)
      | Some (t', e') \<Rightarrow> if t' < t then Some (t', e') else Some (t, e))"

fun fulfilled :: "(nat \<times> Outcome) list \<Rightarrow> Response list" where
  "fulfilled [] = []"
| "fulfilled ((t, Resolved r) # ps) = r # fulfilled ps"
| "fulfilled ((t, Rejected e) # ps) = fulfilled ps"

definition promiseAll :: "(nat \<times> Outcome) list \<Rightarrow> exn + Response list" where
  "promiseAll ps =
     (case earliestRejection ps of
        Some (t, e) \<Rightarrow> Inl e
      | None \<Rightarrow> Inr (fulfilled ps))"

text \<open>
  \<open>responses.map(callback)\<close> where the callback may throw: the callback runs on the
  responses in order, and the first throw ends the map.
\<close>

fun mapThrowing :: "('a \<Rightarrow> exn + 'b) \<Rightarrow> 'a list \<Rightarrow> exn + 'b list" where
  "mapThrowing f [] = Inr []"
| "mapThrowing f (x # xs) =
     (case f x of
        Inl e \<Rightarrow> Inl e
      | Inr y \<Rightarrow> (case mapThrowing f xs of Inl e \<Rightarrow> Inl e | Inr ys \<Rightarrow> Inr (y # ys)))"

text \<open>\<open>.filter(url => url !== null)\<close>.\<close>

fun filterNonNull :: "'a option list \<Rightarrow> 'a list" where
  "filterNonNull [] = []"
| "filterNonNull (None # us) = filterNonNull us"
| "filterNonNull (Some u # us) = u # filterNonNull us"

definition generatePhotos ::
  "Env \<Rightarrow> Svc \<Rightarrow> File \<Rightarrow> File option \<Rightarrow> File option \<Rightarrow> string \<Rightarrow> string \<Rightarrow> string
     \<Rightarrow> Svc \<times> (exn + string list)" where
  "generatePhotos env svc productPhoto modelPhoto referencePhoto theme customTheme additionalCommands =
     (case getAi env svc of
        Inl e \<Rightarrow> (svc, Inl e)
      | Inr svc0 \<Rightarrow>
          (let finalTheme = (if theme = ''None'' then customTheme else theme);
               productPart = fileToGenerativePart productPhoto
           in case referencePhoto of
                Some rp \<Rightarrow>
                  (let prompt = ''Generate 1 product photo that matches the style of the reference photo. The logo, text, shape, and product color must not be altered.'';
                       prompt = (if finalTheme \<noteq> [] then prompt @ '' The theme should be: '' @ finalTheme @ ''.'' else prompt);
                       prompt = (if additionalCommands \<noteq> [] then prompt @ '' Additional instructions: '' @ additionalCommands @ ''.'' else prompt);
                       referencePart = fileToGenerativePart rp;
                       (svc1, out) = callApi env svc0 (request [productPart, referencePart, textPart prompt])
                   in case out of
                        Rejected e \<Rightarrow> (svc1, Inl e)
                      | Resolved response \<Rightarrow>
                          (case findImageData response of
                             Inl e \<Rightarrow> (svc1, Inl e)
                           | Inr (Some b) \<Rightarrow> (svc1, Inr [dataUrl b])
                           | Inr None \<Rightarrow> (svc1, Inr [])))
              | None \<Rightarrow>
                  (let numberOfImages = 4;
                       (basePrompt, ps) =
                         (case modelPhoto of
                            Some mp \<Rightarrow>
                              (''Generate a professional photo of the provided model holding or wearing the product. Add supporting props to make the photo more appealing. It is absolutely crucial that the model's face remains consistent and unchanged from the source photo. Do not alter the facial features. Create a unique variation with a different body pose, facial expression, lighting, composition, or camera angle.'',
                               [productPart, fileToGenerativePart mp])
                          | None \<Rightarrow>
                              (''Generate a professional variation of the product in the image with different lighting, composition, and camera angles. Add supporting props to make the product photo more appealing.'',
                               [productPart]));
                       fullPrompt = basePrompt;
                       fullPrompt = (if finalTheme \<noteq> [] then fullPrompt @ '' The theme should be: '' @ finalTheme @ ''.'' else fullPrompt);
                       fullPrompt = (if additionalCommands \<noteq> [] then fullPrompt @ '' Additional instructions: '' @ additionalCommands @ ''.'' else fullPrompt);
                       (svc1, generationPromises) =
                         issueCalls env numberOfImages (request (ps @ [textPart fullPrompt])) svc0
                   in case promiseAll generationPromises of
                        Inl e \<Rightarrow> (svc1, Inl e)
                      | Inr responses \<Rightarrow>
                          (case mapThrowing imageUrlOf responses of
                             Inl e \<Rightarrow> (svc1, Inl e)
                           | Inr urls \<Rightarrow> (svc1, Inr (filterNonNull urls))))))"

subsection \<open>refineImage\<close>

text \<open>
  The declared argument is a string; \<open>handleRefinement\<close> passes \<open>imageHistory[currentIndex]\<close>,
  which is \<open>undefined\<close> outside the array, and then reading \<open>base64ImageData.substring\<close>
  throws a \<open>TypeError\<close> (its message depends on the engine).
\<close>

definition refineImage :: "Env \<Rightarrow> Svc \<Rightarrow> string option \<Rightarrow> string \<Rightarrow> Svc \<times> (exn + string)" where
  "refineImage env svc base64ImageData command =
     (case getAi env svc of
        Inl e \<Rightarrow> (svc, Inl e)
      | Inr svc0 \<Rightarrow>
          (case base64ImageData of
             None \<Rightarrow> (svc0, Inl (TypeError ''Cannot read properties of undefined (reading 'substring')''))
           | Some url \<Rightarrow>
               (let mimeType = substring url (indexOf url CHR '':'' + 1) (indexOf url CHR '';'');
                    data = jsIndex (split url CHR '','') 1;
                    imagePart = inlinePart data (Some mimeType);
                    (svc1, out) = callApi env svc0 (request [imagePart, textPart command])
                in case out of
                     Rejected e \<Rightarrow> (svc1, Inl e)
                   | Resolved response \<Rightarrow>
                       (case findImageData response of
                          Inl e \<Rightarrow> (svc1, Inl e)
                        | Inr (Some b) \<Rightarrow> (svc1, Inr (dataUrl b))
                        | Inr None \<Rightarrow> (svc1, Inl (Error ''Failed to refine image.''))))))"

section \<open>Result history: the state updaters of App.tsx\<close>

text \<open>
  The updater that \<open>handleRefinement\<close> passes to \<open>setResults\<close> once \<open>refineImage\<close> has
  returned \<open>newImageUrl\<close>: the entry at \<open>resultIndex\<close> gets a new history, cut after the
  current index, with the new image pushed.
\<close>

definition refineEntry :: "string \<Rightarrow> ResultState \<Rightarrow> ResultState" where
  "refineEntry newImageUrl res =
     (let newHistory = slice0 (imageHistory res) (currentIndex res + 1);
          newHistory = newHistory @ [newImageUrl]
      in res\<lparr>imageHistory := newHistory,
             currentIndex := int (length newHistory) - 1,
             refinementPrompt := ''''\<rparr>)"

definition refinementUpdater :: "int \<Rightarrow> string \<Rightarrow> ResultState list \<Rightarrow> ResultState list" where
  "refinementUpdater resultIndex newImageUrl prevResults =
     mapIndex (\<lambda>res index. if int index \<noteq> resultIndex then res else refineEntry newImageUrl res)
       prevResults"

definition undoEntry :: "ResultState \<Rightarrow> ResultState" where
  "undoEntry res = res\<lparr>currentIndex := max 0 (currentIndex res - 1)\<rparr>"

definition redoEntry :: "ResultState \<Rightarrow> ResultState" where
  "redoEntry res =
     res\<lparr>currentIndex := min (int (length (imageHistory res)) - 1) (currentIndex res + 1)\<rparr>"

definition undoUpdater :: "string \<Rightarrow> ResultState list \<Rightarrow> ResultState list" where
  "undoUpdater resultId prev = map (\<lambda>res. if id_r res = resultId then undoEntry res else res) prev"

definition redoUpdater :: "string \<Rightarrow> ResultState list \<Rightarrow> ResultState list" where
  "redoUpdater resultId prev = map (\<lambda>res. if id_r res = resultId then redoEntry res else res) prev"

definition promptUpdater :: "string \<Rightarrow> string \<Rightarrow> ResultState list \<Rightarrow> ResultState list" where
  "promptUpdater resultId prompt prev =
     map (\<lambda>res. if id_r res = resultId then res\<lparr>refinementPrompt := prompt\<rparr> else res) prev"

section \<open>The App component: state and handlers\<close>

record App =
  productPhoto :: "ImageFile option"
  modelPhoto :: "ImageFile option"
  referencePhoto :: "ImageFile option"
  activeTheme :: string
  customTheme :: string
  additionalCommands :: string
  isLoading :: bool
  results :: "ResultState list"
  history :: "HistoryItem list"
  error :: "string option"
  zoomedImage :: "string option"

text \<open>The state of the first render, as the \<open>useState\<close> calls give it.\<close>

definition initialApp :: App where
  "initialApp =
     \<lparr>productPhoto = None, modelPhoto = None, referencePhoto = None,
      activeTheme = ''Studio'', customTheme = [], additionalCommands = [],
      isLoading = False, results = [], history = [], error = None, zoomedImage = None\<rparr>"

text \<open>\<open>e instanceof Error ? e.message : 'An unknown error occurred.'\<close>\<close>

definition messageOf :: "exn \<Rightarrow> string" where
  "messageOf e =
     (case e of Error m \<Rightarrow> m | TypeError m \<Rightarrow> m | NonError \<Rightarrow> ''An unknown error occurred.'')"

text \<open>
  The entries built from the generated images. \<open>now k\<close> is what \<open>Date.now()\<close> returns the
  \<open>k\<close>-th time it is read after the images have arrived: once per image, then once for
  the history item.
\<close>

definition newResultsOf :: "(nat \<Rightarrow> nat) \<Rightarrow> string list \<Rightarrow> ResultState list" where
  "newResultsOf now generatedImages =
     mapIndex (\<lambda>url index.
         \<lparr>id_r = ''result-'' @ showNat (now index) @ ''-'' @ showNat index,
          imageHistory = [url],
          currentIndex = 0,
          refinementPrompt = []\<rparr>)
       generatedImages"

text \<open>
  \<open>handleGenerateClick\<close> is asynchronous. Its part after the \<open>await\<close> sets \<open>results\<close> to
  the new entries whatever they were, prepends to \<open>history\<close>, which no other handler
  writes, and sets \<open>error\<close> and \<open>isLoading\<close>; the button that starts it and the buttons
  for refinement, undo and redo are disabled while loading. An event that arrives during
  the \<open>await\<close> therefore either writes \<open>results\<close> and is overwritten (or, when the
  generation fails, could as well arrive after it), or writes a field that this handler
  does not touch and could as well arrive after it. The handler is run to its end in one
  step, with the remote outcomes taken from the environment.
\<close>

definition handleGenerateClick :: "Env \<Rightarrow> (nat \<Rightarrow> nat) \<Rightarrow> Svc \<times> App \<Rightarrow> Svc \<times> App" where
  "handleGenerateClick env now st =
     (let (svc, app) = st in
      case productPhoto app of
        None \<Rightarrow> (svc, app\<lparr>error := Some ''Product photo is required.''\<rparr>)
      | Some pp \<Rightarrow>
          (let app1 = app\<lparr>isLoading := True, error := None, results := []\<rparr>;
               (svc1, r) =
                 generatePhotos env svc (file_i pp)
                   (map_option file_i (modelPhoto app))
                   (map_option file_i (referencePhoto app))
                   (activeTheme app) (customTheme app) (additionalCommands app)
           in case r of
                Inr generatedImages \<Rightarrow>
                  (let newResults = newResultsOf now generatedImages;
                       app2 = app1\<lparr>results := newResults\<rparr>;
                       app3 =
                         (if length newResults > 0
                          then app2\<lparr>history :=
                                 \<lparr>id_h = ''history-'' @ showNat (now (length generatedImages)),
                                  results_h = newResults\<rparr> # history app2\<rparr>
                          else app2)
                   in (svc1, app3\<lparr>isLoading := False\<rparr>))
              | Inl e \<Rightarrow> (svc1, app1\<lparr>error := Some (messageOf e), isLoading := False\<rparr>)))"

definition handleUndo :: "App \<Rightarrow> string \<Rightarrow> App" where
  "handleUndo app resultId = app\<lparr>results := undoUpdater resultId (results app)\<rparr>"

definition handleRedo :: "App \<Rightarrow> string \<Rightarrow> App" where
  "handleRedo app resultId = app\<lparr>results := redoUpdater resultId (results app)\<rparr>"

definition handleRefinementPromptChange :: "App \<Rightarrow> string \<Rightarrow> string \<Rightarrow> App" where
  "handleRefinementPromptChange app resultId prompt =
     app\<lparr>results := promptUpdater resultId prompt (results app)\<rparr>"

text \<open>The click on a history item: \<open>setResults(item.results)\<close>.\<close>

definition selectHistoryItem :: "App \<Rightarrow> HistoryItem \<Rightarrow> App" where
  "selectHistoryItem app item = app\<lparr>results := results_h item\<rparr>"

text \<open>The remaining handlers that write the state.\<close>

definition handleModelPhotoChange :: "App \<Rightarrow> ImageFile option \<Rightarrow> App" where
  "handleModelPhotoChange app f =
     (let app1 = app\<lparr>modelPhoto := f\<rparr>
      in if f \<noteq> None then app1\<lparr>referencePhoto := None\<rparr> else app1)"

definition handleReferencePhotoChange :: "App \<Rightarrow> ImageFile option \<Rightarrow> App" where
  "handleReferencePhotoChange app f =
     (let app1 = app\<lparr>referencePhoto := f\<rparr>
      in if f \<noteq> None then app1\<lparr>modelPhoto := None\<rparr> else app1)"

definition handleThemeClick :: "App \<Rightarrow> string \<Rightarrow> App" where
  "handleThemeClick app theme = app\<lparr>activeTheme := theme, customTheme := []\<rparr>"

text \<open>The \<open>onChange\<close> of the custom theme input.\<close>

definition customThemeInput :: "App \<Rightarrow> string \<Rightarrow> App" where
  "customThemeInput app v = app\<lparr>customTheme := v, activeTheme := ''None''\<rparr>"

subsection \<open>The events with a synchronous handler\<close>

text \<open>
  One constructor per event that the rendered page can deliver to a handler that runs to
  its end at once. A history item is clicked by its position in the rendered list. The
  page disables the undo and redo buttons while loading or at the ends of a stack; the
  model delivers them all the same, so it has every run of the page and more.
\<close>

datatype Event =
    SetProductPhoto "ImageFile option"
  | ModelPhotoChange "ImageFile option"
  | ReferencePhotoChange "ImageFile option"
  | ThemeClick string
  | CustomThemeInput string
  | AdditionalCommandsInput string
  | Undo string
  | Redo string
  | RefinementPromptChange string string
  | HistoryClick nat
  | SetZoomedImage "string option"

fun deliver :: "App \<Rightarrow> Event \<Rightarrow> App" where
  "deliver app (SetProductPhoto f) = app\<lparr>productPhoto := f\<rparr>"
| "deliver app (ModelPhotoChange f) = handleModelPhotoChange app f"
| "deliver app (ReferencePhotoChange f) = handleReferencePhotoChange app f"
| "deliver app (ThemeClick t) = handleThemeClick app t"
| "deliver app (CustomThemeInput v) = customThemeInput app v"
| "deliver app (AdditionalCommandsInput v) = app\<lparr>additionalCommands := v\<rparr>"
| "deliver app (Undo resultId) = handleUndo app resultId"
| "deliver app (Redo resultId) = handleRedo app resultId"
| "deliver app (RefinementPromptChange resultId prompt) =
     handleRefinementPromptChange app resultId prompt"
| "deliver app (HistoryClick k) =
     (if k < length (history app) then selectHistoryItem app (history app ! k) else app)"
| "deliver app (SetZoomedImage z) = app\<lparr>zoomedImage := z\<rparr>"

subsection \<open>handleRefinement\<close>

text \<open>
  \<open>handleRefinement\<close> is asynchronous too, and its part after the \<open>await\<close> depends on what
  has happened meanwhile: \<open>resultIndex\<close> and the image sent are taken from the \<open>results\<close>
  of the click, before the \<open>await\<close>; the updater passed to \<open>setResults\<close> afterwards maps the
  \<open>results\<close> of that later moment, at the index found before. While the call is awaited
  the history items, the prompt inputs and the controls of the left column stay live.
  \<open>during\<close> is the list of events delivered between the call and its answer; when the
  handler returns at once (no entry with the id, or a blank command) nothing is awaited
  and the list is not looked at.
\<close>

definition handleRefinement ::
  "Env \<Rightarrow> Svc \<times> App \<Rightarrow> string \<Rightarrow> string \<Rightarrow> Event list \<Rightarrow> Svc \<times> App" where
  "handleRefinement env st resultId command during =
     (let (svc, app) = st;
          resultIndex = findIndex (\<lambda>r. id_r r = resultId) (results app)
      in if resultIndex = -1 \<or> trim command = [] then (svc, app)
         else
           (let currentResult = results app ! nat resultIndex;
                currentImageUrl = jsIndex (imageHistory currentResult) (currentIndex currentResult);
                app1 = app\<lparr>isLoading := True\<rparr>;
                (svc1, r) = refineImage env svc currentImageUrl command;
                app2 = foldl deliver app1 during
            in case r of
                 Inr newImageUrl \<Rightarrow>
                   (svc1, app2\<lparr>results := refinementUpdater resultIndex newImageUrl (results app2),
                               isLoading := False\<rparr>)
               | Inl e \<Rightarrow>
                   (svc1, app2\<lparr>error := Some ''Failed to refine the image.'', isLoading := False\<rparr>)))"

subsection \<open>The component as a machine\<close>

text \<open>
  An action is an event with a synchronous handler, a click on the generate button, or a
  click on a refine button together with the events delivered while its call is awaited.
\<close>

datatype Action =
    Deliver Event
  | GenerateClick "nat \<Rightarrow> nat"
  | Refinement string string "Event list"

fun step :: "Env \<Rightarrow> Svc \<times> App \<Rightarrow> Action \<Rightarrow> Svc \<times> App" where
  "step env (svc, app) (Deliver e) = (svc, deliver app e)"
| "step env (svc, app) (GenerateClick now) = handleGenerateClick env now (svc, app)"
| "step env (svc, app) (Refinement resultId command during) =
     handleRefinement env (svc, app) resultId command during"

definition initialSvc :: Svc where
  "initialSvc = \<lparr>ai = None, calls = []\<rparr>"

definition run :: "Env \<Rightarrow> Action list \<Rightarrow> Svc \<times> App" where
  "run env actions = foldl (step env) (initialSvc, initialApp) actions"


subsection \<open>The properties, as predicates and reference functions\<close>

text \<open>The invariant of an entry: the current index points into the image history.\<close>

definition entryInv :: "ResultState \<Rightarrow> bool" where
  "entryInv res =
     (0 \<le> currentIndex res \<and> currentIndex res \<le> int (length (imageHistory res)) - 1)"

definition appInv :: "App \<Rightarrow> bool" where
  "appInv app =
     (list_all entryInv (results app) \<and>
      list_all (\<lambda>item. list_all entryInv (results_h item)) (history app))"

text \<open>The client can be had: it exists already, or the key to build it is set.\<close>

definition clientAvailable :: "Env \<Rightarrow> Svc \<Rightarrow> bool" where
  "clientAvailable env svc =
     (ai svc \<noteq> None \<or> (API_KEY env \<noteq> None \<and> API_KEY env \<noteq> Some []))"

text \<open>The requests sent between two states of the service, and what the remote side answered.\<close>

definition newCalls :: "Svc \<Rightarrow> Svc \<Rightarrow> Request list" where
  "newCalls svc svc' = drop (length (calls svc)) (calls svc')"

definition outcomesOf :: "Env \<Rightarrow> Svc \<Rightarrow> Svc \<Rightarrow> Outcome list" where
  "outcomesOf env svc svc' =
     map (\<lambda>k. generateContent env k (calls svc' ! k)) [length (calls svc)..<length (calls svc')]"

text \<open>
  The instruction text as the specification words it: a base text for the mode, then the
  theme clause when there is an effective theme, then the clause of the additional
  instructions when there are any.
\<close>

definition effectiveTheme_spec :: "string \<Rightarrow> string \<Rightarrow> string" where
  "effectiveTheme_spec theme custom = (if theme = ''None'' then custom else theme)"

definition themeClause_spec :: "string \<Rightarrow> string" where
  "themeClause_spec t = '' The theme should be: '' @ t @ ''.''"

definition extraClause_spec :: "string \<Rightarrow> string" where
  "extraClause_spec x = '' Additional instructions: '' @ x @ ''.''"

definition clauses_spec :: "string \<Rightarrow> string \<Rightarrow> string \<Rightarrow> string list" where
  "clauses_spec theme custom extra =
     (if effectiveTheme_spec theme custom \<noteq> [] then [themeClause_spec (effectiveTheme_spec theme custom)] else []) @
     (if extra \<noteq> [] then [extraClause_spec extra] else [])"

definition basePrompt_spec :: "File option \<Rightarrow> File option \<Rightarrow> string" where
  "basePrompt_spec mp rp =
     (if rp \<noteq> None then
        ''Generate 1 product photo that matches the style of the reference photo. The logo, text, shape, and product color must not be altered.''
      else if mp \<noteq> None then
        ''Generate a professional photo of the provided model holding or wearing the product. Add supporting props to make the photo more appealing. It is absolutely crucial that the model's face remains consistent and unchanged from the source photo. Do not alter the facial features. Create a unique variation with a different body pose, facial expression, lighting, composition, or camera angle.''
      else
        ''Generate a professional variation of the product in the image with different lighting, composition, and camera angles. Add supporting props to make the product photo more appealing.'')"

definition instructionText_spec :: "File option \<Rightarrow> File option \<Rightarrow> string \<Rightarrow> string \<Rightarrow> string \<Rightarrow> string" where
  "instructionText_spec mp rp theme custom extra =
     basePrompt_spec mp rp @ concat (clauses_spec theme custom extra)"

text \<open>
  The shape of a response on which the chain of the code does not throw: the first
  candidate, if there is one and it has a content, has parts. On such a response
  \<open>imageOf\<close> is the data URL of its image, if it has one.
\<close>

definition partsPresent :: "Response \<Rightarrow> bool" where
  "partsPresent response =
     (case candidates response of
        None \<Rightarrow> True
      | Some cs \<Rightarrow>
          (case jsIndex cs 0 of
             None \<Rightarrow> True
           | Some c \<Rightarrow> (case content c of None \<Rightarrow> True | Some ct \<Rightarrow> parts ct \<noteq> None)))"

definition imageOf :: "Response \<Rightarrow> string option" where
  "imageOf response = (case imageUrlOf response of Inl e \<Rightarrow> None | Inr u \<Rightarrow> u)"

section \<open>The same updaters over a store of arrays and objects\<close>

text \<open>
  In the program a \<open>ResultState\<close> is an object, its \<open>imageHistory\<close> an array, and
  \<open>results\<close> an array of objects; a history item holds the very array that was the
  current result set when it was recorded, and a click on the item makes that array the
  current one again. What may change under a recorded item therefore depends on which
  objects the updaters write. This section models the updaters with references: a store
  maps addresses to arrays of URLs, to result objects and to arrays of object references,
  and \<open>lim\<close> is the first address not yet allocated.
\<close>

type_synonym addr = nat

record ResultObj =
  id_o :: string
  imageHistory_o :: addr
  currentIndex_o :: int
  refinementPrompt_o :: string

record Heap =
  urlArrays :: "addr \<Rightarrow> string list"
  resultObjs :: "addr \<Rightarrow> ResultObj"
  resultArrays :: "addr \<Rightarrow> addr list"
  lim :: addr

text \<open>Array and object literals allocate.\<close>

definition allocUrlArray :: "string list \<Rightarrow> Heap \<Rightarrow> Heap \<times> addr" where
  "allocUrlArray xs h = (h\<lparr>urlArrays := (urlArrays h)(lim h := xs), lim := Suc (lim h)\<rparr>, lim h)"

definition allocResultObj :: "ResultObj \<Rightarrow> Heap \<Rightarrow> Heap \<times> addr" where
  "allocResultObj ob h = (h\<lparr>resultObjs := (resultObjs h)(lim h := ob), lim := Suc (lim h)\<rparr>, lim h)"

definition allocResultArray :: "addr list \<Rightarrow> Heap \<Rightarrow> Heap \<times> addr" where
  "allocResultArray rs h = (h\<lparr>resultArrays := (resultArrays h)(lim h := rs), lim := Suc (lim h)\<rparr>, lim h)"

text \<open>\<open>arr.slice(0, e)\<close> makes a new array; \<open>arr.push(v)\<close> writes the array it is called on.\<close>

definition sliceH :: "addr \<Rightarrow> int \<Rightarrow> Heap \<Rightarrow> Heap \<times> addr" where
  "sliceH a e h = allocUrlArray (slice0 (urlArrays h a) e) h"

definition pushH :: "addr \<Rightarrow> string \<Rightarrow> Heap \<Rightarrow> Heap" where
  "pushH a v h = h\<lparr>urlArrays := (urlArrays h)(a := urlArrays h a @ [v])\<rparr>"

text \<open>
  \<open>arr.map(f)\<close> on an array of object references: the callback runs on each reference in
  turn, with its index, and may allocate; the references it returns make a new array.
\<close>

fun mapRefsFrom ::
  "nat \<Rightarrow> (addr \<Rightarrow> nat \<Rightarrow> Heap \<Rightarrow> Heap \<times> addr) \<Rightarrow> addr list \<Rightarrow> Heap \<Rightarrow> Heap \<times> addr list" where
  "mapRefsFrom i f [] h = (h, [])"
| "mapRefsFrom i f (r # rs) h =
     (let (h1, r') = f r i h;
          (h2, rs') = mapRefsFrom (Suc i) f rs h1
      in (h2, r' # rs'))"

definition mapResultArray ::
  "(addr \<Rightarrow> nat \<Rightarrow> Heap \<Rightarrow> Heap \<times> addr) \<Rightarrow> addr \<Rightarrow> Heap \<Rightarrow> Heap \<times> addr" where
  "mapResultArray f a h =
     (let (h1, rs') = mapRefsFrom 0 f (resultArrays h a) h
      in allocResultArray rs' h1)"

text \<open>
  The callbacks of the four updaters. An object spread \<open>{...res, field: v}\<close> allocates
  an object that shares the image history array of \<open>res\<close>; only the refinement takes a
  copy of that array (the slice) and pushes onto the copy.
\<close>

definition refineEntryH :: "string \<Rightarrow> addr \<Rightarrow> Heap \<Rightarrow> Heap \<times> addr" where
  "refineEntryH newImageUrl r h =
     (let res = resultObjs h r;
          (h1, newHistory) = sliceH (imageHistory_o res) (currentIndex_o res + 1) h;
          h2 = pushH newHistory newImageUrl h1
      in allocResultObj
           (res\<lparr>imageHistory_o := newHistory,
                currentIndex_o := int (length (urlArrays h2 newHistory)) - 1,
                refinementPrompt_o := []\<rparr>)
           h2)"

definition refinementUpdaterH :: "int \<Rightarrow> string \<Rightarrow> addr \<Rightarrow> Heap \<Rightarrow> Heap \<times> addr" where
  "refinementUpdaterH resultIndex newImageUrl prevResults h =
     mapResultArray
       (\<lambda>r index h. if int index \<noteq> resultIndex then (h, r) else refineEntryH newImageUrl r h)
       prevResults h"

definition undoUpdaterH :: "string \<Rightarrow> addr \<Rightarrow> Heap \<Rightarrow> Heap \<times> addr" where
  "undoUpdaterH resultId prev h =
     mapResultArray
       (\<lambda>r index h.
          (let res = resultObjs h r
           in if id_o res = resultId
              then allocResultObj (res\<lparr>currentIndex_o := max 0 (currentIndex_o res - 1)\<rparr>) h
              else (h, r)))
       prev h"

definition redoUpdaterH :: "string \<Rightarrow> addr \<Rightarrow> Heap \<Rightarrow> Heap \<times> addr" where
  "redoUpdaterH resultId prev h =
     mapResultArray
       (\<lambda>r index h.
          (let res = resultObjs h r
           in if id_o res = resultId
              then allocResultObj
                     (res\<lparr>currentIndex_o :=
                            min (int (length (urlArrays h (imageHistory_o res))) - 1)
                                (currentIndex_o res + 1)\<rparr>) h
              else (h, r)))
       prev h"

definition promptUpdaterH :: "string \<Rightarrow> string \<Rightarrow> addr \<Rightarrow> Heap \<Rightarrow> Heap \<times> addr" where
  "promptUpdaterH resultId prompt prev h =
     mapResultArray
       (\<lambda>r index h.
          (let res = resultObjs h r
           in if id_o res = resultId
              then allocResultObj (res\<lparr>refinementPrompt_o := prompt\<rparr>) h
              else (h, r)))
       prev h"

text \<open>The entries that \<open>handleGenerateClick\<close> builds from the generated images.\<close>

fun newEntriesFrom :: "nat \<Rightarrow> (nat \<Rightarrow> nat) \<Rightarrow> string list \<Rightarrow> Heap \<Rightarrow> Heap \<times> addr list" where
  "newEntriesFrom index now [] h = (h, [])"
| "newEntriesFrom index now (url # urls) h =
     (let (h1, hist) = allocUrlArray [url] h;
          (h2, r) = allocResultObj
             \<lparr>id_o = ''result-'' @ showNat (now index) @ ''-'' @ showNat index,
              imageHistory_o = hist, currentIndex_o = 0, refinementPrompt_o = []\<rparr> h1;
          (h3, rs) = newEntriesFrom (Suc index) now urls h2
      in (h3, r # rs))"

definition newResultsH :: "(nat \<Rightarrow> nat) \<Rightarrow> string list \<Rightarrow> Heap \<Rightarrow> Heap \<times> addr" where
  "newResultsH now generatedImages h =
     (let (h1, rs) = newEntriesFrom 0 now generatedImages h
      in allocResultArray rs h1)"

subsection \<open>The result set and the history as references\<close>

text \<open>
  The two state variables: \<open>results\<close> refers to an array, and each history item carries
  its id and the reference to its \<open>results\<close> array. The history list itself is only ever
  replaced by a longer one.
\<close>

record AppH =
  results_a :: addr
  history_a :: "(string \<times> addr) list"

text \<open>The updates of the current result set, as data.\<close>

datatype Update =
    RefineU int string
  | UndoU string
  | RedoU string
  | PromptU string string

fun applyUpdate :: "Update \<Rightarrow> ResultState list \<Rightarrow> ResultState list" where
  "applyUpdate (RefineU resultIndex newImageUrl) prev = refinementUpdater resultIndex newImageUrl prev"
| "applyUpdate (UndoU resultId) prev = undoUpdater resultId prev"
| "applyUpdate (RedoU resultId) prev = redoUpdater resultId prev"
| "applyUpdate (PromptU resultId prompt) prev = promptUpdater resultId prompt prev"

fun applyUpdateH :: "Update \<Rightarrow> addr \<Rightarrow> Heap \<Rightarrow> Heap \<times> addr" where
  "applyUpdateH (RefineU resultIndex newImageUrl) prev h = refinementUpdaterH resultIndex newImageUrl prev h"
| "applyUpdateH (UndoU resultId) prev h = undoUpdaterH resultId prev h"
| "applyUpdateH (RedoU resultId) prev h = redoUpdaterH resultId prev h"
| "applyUpdateH (PromptU resultId prompt) prev h = promptUpdaterH resultId prompt prev h"

text \<open>
  The events that touch the result set or the history: an update of the current result
  set (\<open>setResults(prev => ...)\<close>), the start of a generation (\<open>setResults([])\<close>), the
  recording of a generation that returned images (\<open>setResults(newResults)\<close> and, for at
  least one image, the new history item with the same array), and the click on the
  \<open>k\<close>-th history item (\<open>setResults(item.results)\<close>). Each is one write of the state, so
  the runs of this machine include every order in which the handlers' writes can arrive.
\<close>

datatype EventH =
    UpdateE Update
  | ClearE
  | RecordE "nat \<Rightarrow> nat" "string list"
  | SelectE nat

fun stepH :: "Heap \<times> AppH \<Rightarrow> EventH \<Rightarrow> Heap \<times> AppH" where
  "stepH (h, st) (UpdateE u) =
     (let (h', a) = applyUpdateH u (results_a st) h in (h', st\<lparr>results_a := a\<rparr>))"
| "stepH (h, st) ClearE =
     (let (h', a) = allocResultArray [] h in (h', st\<lparr>results_a := a\<rparr>))"
| "stepH (h, st) (RecordE now generatedImages) =
     (let (h', a) = newResultsH now generatedImages h;
          st1 = st\<lparr>results_a := a\<rparr>
      in (h', if length (resultArrays h' a) > 0
              then st1\<lparr>history_a :=
                     (''history-'' @ showNat (now (length generatedImages)), a) # history_a st1\<rparr>
              else st1))"
| "stepH (h, st) (SelectE k) =
     (h, if k < length (history_a st) then st\<lparr>results_a := snd (history_a st ! k)\<rparr> else st)"

text \<open>Reading the values back out of the store.\<close>

definition readEntry :: "Heap \<Rightarrow> addr \<Rightarrow> ResultState" where
  "readEntry h r =
     (let res = resultObjs h r
      in \<lparr>id_r = id_o res,
          imageHistory = urlArrays h (imageHistory_o res),
          currentIndex = currentIndex_o res,
          refinementPrompt = refinementPrompt_o res\<rparr>)"

definition readResults :: "Heap \<Rightarrow> addr \<Rightarrow> ResultState list" where
  "readResults h a = map (readEntry h) (resultArrays h a)"

definition readItem :: "Heap \<Rightarrow> string \<times> addr \<Rightarrow> HistoryItem" where
  "readItem h item = \<lparr>id_h = fst item, results_h = readResults h (snd item)\<rparr>"

text \<open>
  A reference is present when it has been allocated; a result array is present with
  everything it reaches. The state is well formed when all it refers to is present.
\<close>

definition presentEntry :: "Heap \<Rightarrow> addr \<Rightarrow> bool" where
  "presentEntry h r = (r < lim h \<and> imageHistory_o (resultObjs h r) < lim h)"

definition presentResults :: "Heap \<Rightarrow> addr \<Rightarrow> bool" where
  "presentResults h a = (a < lim h \<and> list_all (presentEntry h) (resultArrays h a))"

definition wfH :: "Heap \<times> AppH \<Rightarrow> bool" where
  "wfH s =
     (presentResults (fst s) (results_a (snd s)) \<and>
      list_all (\<lambda>item. presentResults (fst s) (snd item)) (history_a (snd s)))"

text \<open>The store \<open>h'\<close> extends \<open>h\<close>: nothing that was allocated in \<open>h\<close> has been written.\<close>

definition heapExt :: "Heap \<Rightarrow> Heap \<Rightarrow> bool" where
  "heapExt h h' =
     (lim h \<le> lim h' \<and>
      (\<forall>x < lim h. urlArrays h' x = urlArrays h x \<and> resultObjs h' x = resultObjs h x \<and>
                    resultArrays h' x = resultArrays h x))"

text \<open>The state at the first render: \<open>results\<close> is an empty array, the history is empty.\<close>

definition initialHeap :: Heap where
  "initialHeap =
     \<lparr>urlArrays = (\<lambda>_. []),
      resultObjs = (\<lambda>_. \<lparr>id_o = [], imageHistory_o = 0, currentIndex_o = 0, refinementPrompt_o = []\<rparr>),
      resultArrays = (\<lambda>_. []), lim = 1\<rparr>"

definition initialAppH :: AppH where
  "initialAppH = \<lparr>results_a = 0, history_a = []\<rparr>"

section \<open>Concrete scenarios\<close>

text \<open>Inputs at which the theorems below are instantiated.\<close>

definition imgA :: string where "imgA = ''data:image/png;base64,QUFB''"
definition imgB :: string where "imgB = ''data:image/png;base64,QkJC''"
definition imgC :: string where "imgC = ''data:image/png;base64,Q0ND''"
definition imgD :: string where "imgD = ''data:image/png;base64,RERE''"

definition respD :: Response where
  "respD = \<lparr>candidates = Some [\<lparr>content = Some \<lparr>parts =
     Some [textPart ''done'', inlinePart (Some ''RERE'') (Some ''image/png'')]\<rparr>\<rparr>]\<rparr>"

definition envD :: Env where
  "envD = \<lparr>API_KEY = Some ''key'', generateContent = (\<lambda>n req. Resolved respD),
     settledAt = (\<lambda>k. k)\<rparr>"

definition entryABC :: ResultState where
  "entryABC = \<lparr>id_r = ''result-7-0'', imageHistory = [imgA, imgB, imgC], currentIndex = 0,
     refinementPrompt = ''bluer''\<rparr>"

definition appABC :: App where
  "appABC = initialApp\<lparr>results := [entryABC]\<rparr>"

text \<open>
  Two batches are in the history and the first is the current result set; the second
  holds an entry of its own with two versions.
\<close>

definition entryXY :: ResultState where
  "entryXY = \<lparr>id_r = ''result-8-0'', imageHistory = [imgB, imgC], currentIndex = 1,
     refinementPrompt = ''greener''\<rparr>"

definition appTwo :: App where
  "appTwo = initialApp\<lparr>results := [entryABC],
     history := [\<lparr>id_h = ''history-8'', results_h = [entryXY]\<rparr>,
                 \<lparr>id_h = ''history-7'', results_h = [entryABC]\<rparr>]\<rparr>"

definition appTop :: App where
  "appTop = initialApp\<lparr>results := [entryABC\<lparr>currentIndex := 2\<rparr>]\<rparr>"

definition productP :: ImageFile where
  "productP = \<lparr>file_i = \<lparr>ftype = ''image/png'', dataURL = imgA\<rparr>, previewUrl = ''blob:p''\<rparr>"

definition sessionActs :: "Action list" where
  "sessionActs =
     [Deliver (SetProductPhoto (Some productP)), GenerateClick (\<lambda>k. 7),
      Refinement ''result-7-0'' ''bluer'' [RefinementPromptChange ''result-7-2'' ''softer''],
      Deliver (Undo ''result-7-0''), Deliver (Undo ''result-7-0''), Deliver (Redo ''result-7-0''),
      Deliver (HistoryClick 0), Deliver (RefinementPromptChange ''result-7-1'' ''warmer'')]"

definition fileP :: File where
  "fileP = \<lparr>ftype = ''image/png'', dataURL = ''data:image/png;base64,UFBQ''\<rparr>"

definition fileM :: File where
  "fileM = \<lparr>ftype = ''image/jpeg'', dataURL = ''data:image/jpeg;base64,TU1N''\<rparr>"

definition fileR :: File where
  "fileR = \<lparr>ftype = ''image/webp'', dataURL = ''data:image/webp;base64,UlJS''\<rparr>"

definition respImg :: "string \<Rightarrow> Response" where
  "respImg d = \<lparr>candidates = Some [\<lparr>content = Some \<lparr>parts =
     Some [inlinePart (Some d) (Some ''image/png'')]\<rparr>\<rparr>]\<rparr>"

definition respNone :: Response where
  "respNone = \<lparr>candidates = Some [\<lparr>content = Some \<lparr>parts = Some [textPart ''no image'']\<rparr>\<rparr>]\<rparr>"

text \<open>A response whose content has no parts.\<close>

definition respPartless :: Response where
  "respPartless = \<lparr>candidates = Some [\<lparr>content = Some \<lparr>parts = None\<rparr>\<rparr>]\<rparr>"

text \<open>No key is set.\<close>

definition envNoKey :: Env where
  "envNoKey = \<lparr>API_KEY = None, generateContent = (\<lambda>n req. Resolved respD),
     settledAt = (\<lambda>k. k)\<rparr>"

text \<open>The third call comes back without an image, the others with one.\<close>

definition envMixed :: Env where
  "envMixed = \<lparr>API_KEY = Some ''key'',
     generateContent = (\<lambda>n req. if n = 2 then Resolved respNone else Resolved (respImg (showNat n))),
     settledAt = (\<lambda>k. k)\<rparr>"

text \<open>The third call comes back with a content without parts, the others with an image.\<close>

definition envPartless :: Env where
  "envPartless = \<lparr>API_KEY = Some ''key'',
     generateContent = (\<lambda>n req. if n = 2 then Resolved respPartless else Resolved (respImg (showNat n))),
     settledAt = (\<lambda>k. k)\<rparr>"

text \<open>Every call comes back without an image.\<close>

definition envEmpty :: Env where
  "envEmpty = \<lparr>API_KEY = Some ''key'', generateContent = (\<lambda>n req. Resolved respNone),
     settledAt = (\<lambda>k. k)\<rparr>"

text \<open>Every call is rejected.\<close>

definition envDown :: Env where
  "envDown = \<lparr>API_KEY = Some ''key'', generateContent = (\<lambda>n req. Rejected (Error ''quota'')),
     settledAt = (\<lambda>k. k)\<rparr>"

text \<open>
  The first call resolves, the others are rejected, each with a message of its own, and
  the later a call is issued the earlier it settles.
\<close>

definition envLate :: Env where
  "envLate = \<lparr>API_KEY = Some ''key'',
     generateContent =
       (\<lambda>n req. if n = 0 then Resolved respD else Rejected (Error (''failed '' @ showNat n))),
     settledAt = (\<lambda>k. 10 - k)\<rparr>"

definition referenceR :: ImageFile where
  "referenceR = \<lparr>file_i = fileR, previewUrl = ''blob:r''\<rparr>"

text \<open>A product photo and a reference photo are chosen.\<close>

definition appRef :: App where
  "appRef = initialApp\<lparr>productPhoto := Some productP, referencePhoto := Some referenceR\<rparr>"

text \<open>Only a product photo is chosen.\<close>

definition appProduct :: App where
  "appProduct = initialApp\<lparr>productPhoto := Some productP\<rparr>"

text \<open>
  A generation of two images has been recorded and its history item clicked, so the
  current result set and the item share one array; then the first entry is refined and
  undone and the second gets a prompt.
\<close>

definition sharedState :: "Heap \<times> AppH" where
  "sharedState =
     stepH (stepH (initialHeap, initialAppH) (RecordE (\<lambda>k. 7) [imgA, imgB])) (SelectE 0)"

definition laterEvents :: "EventH list" where
  "laterEvents =
     [UpdateE (RefineU 0 imgD), UpdateE (UndoU ''result-7-0''),
      UpdateE (PromptU ''result-7-1'' ''warmer'')]"

section \<open>Facts about the library functions\<close>

lemma showNat_small: "n < 10 \<Longrightarrow> showNat n = [''0123456789'' ! n]"
  by (simp add: showNat.simps)


lemma length_mapIndexFrom: "length (mapIndexFrom i f xs) = length xs"
  by (induction xs arbitrary: i) simp_all

lemma nth_mapIndexFrom: "j < length xs \<Longrightarrow> mapIndexFrom i f xs ! j = f (xs ! j) (i + j)"
proof (induction xs arbitrary: i j)
  case Nil
  then show ?case by simp
next
  case (Cons x xs)
  then show ?case by (cases j) simp_all
qed

lemma length_mapIndex: "length (mapIndex f xs) = length xs"
  by (simp add: mapIndex_def length_mapIndexFrom)

lemma nth_mapIndex: "j < length xs \<Longrightarrow> mapIndex f xs ! j = f (xs ! j) j"
  by (simp add: mapIndex_def nth_mapIndexFrom)

lemma findIndexFrom_cases:
  "(findIndexFrom i p xs = -1 \<and> (\<forall>x \<in> set xs. \<not> p x)) \<or>
   (\<exists>k < length xs. findIndexFrom i p xs = i + int k \<and> p (xs ! k) \<and> (\<forall>j < k. \<not> p (xs ! j)))"
  if "0 \<le> i"
  using that
proof (induction xs arbitrary: i)
  case Nil
  then show ?case by simp
next
  case (Cons x xs)
  show ?case
  proof (cases "p x")
    case True
    then show ?thesis by auto
  next
    case False
    from Cons.prems have "0 \<le> i + 1" by simp
    from Cons.IH [OF this] show ?thesis
    proof
      assume "findIndexFrom (i + 1) p xs = - 1 \<and> (\<forall>x\<in>set xs. \<not> p x)"
      with False show ?thesis by simp
    next
      assume "\<exists>k<length xs. findIndexFrom (i + 1) p xs = i + 1 + int k \<and> p (xs ! k) \<and> (\<forall>j<k. \<not> p (xs ! j))"
      then obtain k where k: "k < length xs" "findIndexFrom (i + 1) p xs = i + 1 + int k"
        "p (xs ! k)" "\<forall>j<k. \<not> p (xs ! j)" by blast
      have "\<forall>j<Suc k. \<not> p ((x # xs) ! j)"
        using False k(4) by (auto simp: less_Suc_eq_0_disj)
      with k False have "Suc k < length (x # xs) \<and> findIndexFrom i p (x # xs) = i + int (Suc k) \<and>
         p ((x # xs) ! Suc k) \<and> (\<forall>j<Suc k. \<not> p ((x # xs) ! j))" by simp
      then show ?thesis by blast
    qed
  qed
qed


lemma findIndex_range:
  "findIndex p xs = -1 \<or> (0 \<le> findIndex p xs \<and> findIndex p xs < int (length xs))"
  using findIndexFrom_cases [of 0 p xs] by (auto simp: findIndex_def)

lemma findIndex_found:
  assumes "findIndex p xs \<noteq> -1"
  shows "nat (findIndex p xs) < length xs \<and> p (xs ! nat (findIndex p xs)) \<and>
         (\<forall>j < nat (findIndex p xs). \<not> p (xs ! j))"
  using findIndexFrom_cases [of 0 p xs] assms by (auto simp: findIndex_def)

lemma refinementUpdater_update:
  assumes "i < length xs"
  shows "refinementUpdater (int i) u xs = xs[i := refineEntry u (xs ! i)]"
  by (rule nth_equalityI) (auto simp: refinementUpdater_def length_mapIndex nth_mapIndex nth_list_update assms)

lemma refinementUpdater_outside:
  assumes "k < 0 \<or> int (length xs) \<le> k"
  shows "refinementUpdater k u xs = xs"
  using assms by (intro nth_equalityI) (auto simp: refinementUpdater_def length_mapIndex nth_mapIndex)


section \<open>Refinement after undo\<close>









section \<open>Undo, redo and the invariant of the entries\<close>

lemma entryInv_refineEntry: "entryInv (refineEntry u res)"
  by (simp add: entryInv_def refineEntry_def Let_def)

lemma entryInv_undoEntry: "entryInv res \<Longrightarrow> entryInv (undoEntry res)"
  by (auto simp: entryInv_def undoEntry_def)

lemma entryInv_redoEntry: "entryInv res \<Longrightarrow> entryInv (redoEntry res)"
  by (auto simp: entryInv_def redoEntry_def)

lemma entryInv_prompt: "entryInv (res\<lparr>refinementPrompt := p\<rparr>) = entryInv res"
  by (simp add: entryInv_def)

lemma inv_undoUpdater: "list_all entryInv xs \<Longrightarrow> list_all entryInv (undoUpdater rid xs)"
  by (induction xs) (simp_all add: undoUpdater_def entryInv_undoEntry)

lemma inv_redoUpdater: "list_all entryInv xs \<Longrightarrow> list_all entryInv (redoUpdater rid xs)"
  by (induction xs) (simp_all add: redoUpdater_def entryInv_redoEntry)

lemma inv_promptUpdater: "list_all entryInv xs \<Longrightarrow> list_all entryInv (promptUpdater rid p xs)"
  by (induction xs) (simp_all add: promptUpdater_def entryInv_prompt)

lemma inv_refinementUpdater:
  assumes "list_all entryInv xs"
  shows "list_all entryInv (refinementUpdater k u xs)"
proof (cases "0 \<le> k \<and> k < int (length xs)")
  case True
  then have "nat k < length xs" and "int (nat k) = k" by linarith+
  then have "refinementUpdater k u xs = xs[nat k := refineEntry u (xs ! nat k)]"
    using refinementUpdater_update [of "nat k" xs u] by metis
  with assms show ?thesis
    by (auto simp: list_all_iff entryInv_refineEntry dest!: set_update_subset_insert [THEN subsetD])
next
  case False
  then have "refinementUpdater k u xs = xs"
    by (intro refinementUpdater_outside) auto
  with assms show ?thesis by simp
qed

lemma inv_applyUpdate: "list_all entryInv prev \<Longrightarrow> list_all entryInv (applyUpdate u prev)"
  by (cases u) (simp_all add: inv_refinementUpdater inv_undoUpdater inv_redoUpdater inv_promptUpdater)

lemma inv_newResultsOf: "list_all entryInv (newResultsOf now imgs)"
proof -
  have "list_all entryInv (mapIndexFrom i
      (\<lambda>url index. \<lparr>id_r = ''result-'' @ showNat (now index) @ ''-'' @ showNat index,
          imageHistory = [url], currentIndex = 0, refinementPrompt = []\<rparr>) imgs)" for i
    by (induction imgs arbitrary: i) (simp_all add: entryInv_def)
  then show ?thesis by (simp add: newResultsOf_def mapIndex_def)
qed

lemma appInv_handleGenerateClick:
  assumes "appInv app"
  shows "appInv (snd (handleGenerateClick env now (svc, app)))"
  using assms inv_newResultsOf [of now]
  by (auto simp: handleGenerateClick_def appInv_def Let_def split: option.splits prod.splits sum.splits)

lemma list_all_nth: "list_all P xs \<Longrightarrow> k < length xs \<Longrightarrow> P (xs ! k)"
  by (simp add: list_all_length)

lemma appInv_deliver:
  assumes "appInv app"
  shows "appInv (deliver app e)"
proof (cases e)
  case (HistoryClick k)
  with assms show ?thesis
    by (auto simp: appInv_def selectHistoryItem_def dest: list_all_nth)
qed (use assms in \<open>simp_all add: appInv_def handleModelPhotoChange_def
      handleReferencePhotoChange_def handleThemeClick_def customThemeInput_def handleUndo_def
      handleRedo_def handleRefinementPromptChange_def inv_undoUpdater inv_redoUpdater
      inv_promptUpdater Let_def\<close>)

lemma appInv_foldl_deliver: "appInv app \<Longrightarrow> appInv (foldl deliver app es)"
  by (induction es arbitrary: app) (simp_all add: appInv_deliver)

lemma appInv_handleRefinement:
  assumes "appInv app"
  shows "appInv (snd (handleRefinement env (svc, app) rid command during))"
proof -
  from assms have "appInv (app\<lparr>isLoading := True\<rparr>)"
    by (simp add: appInv_def)
  then have "appInv (foldl deliver (app\<lparr>isLoading := True\<rparr>) during)"
    by (rule appInv_foldl_deliver)
  then have "appInv ((foldl deliver (app\<lparr>isLoading := True\<rparr>) during)
        \<lparr>results := refinementUpdater k u (results (foldl deliver (app\<lparr>isLoading := True\<rparr>) during)),
         isLoading := False\<rparr>)"
      "appInv ((foldl deliver (app\<lparr>isLoading := True\<rparr>) during)
        \<lparr>error := Some ''Failed to refine the image.'', isLoading := False\<rparr>)" for k u
    by (simp_all add: appInv_def inv_refinementUpdater)
  with assms show ?thesis
    by (simp add: handleRefinement_def Let_def split: prod.splits sum.splits)
qed

lemma appInv_step:
  assumes "appInv (snd s)"
  shows "appInv (snd (step env s a))"
proof (cases s)
  case (Pair svc app)
  with assms have inv: "appInv app" by simp
  show ?thesis
  proof (cases a)
    case (Deliver e)
    with Pair inv show ?thesis by (simp add: appInv_deliver)
  next
    case (GenerateClick now)
    with Pair inv show ?thesis by (simp add: appInv_handleGenerateClick)
  next
    case (Refinement rid command during)
    with Pair inv show ?thesis by (simp add: appInv_handleRefinement)
  qed
qed

lemma appInv_initial: "appInv initialApp"
  by (simp add: appInv_def initialApp_def)

lemma appInv_foldl: "appInv (snd s) \<Longrightarrow> appInv (snd (foldl (step env) s as))"
  by (induction as arbitrary: s) (simp_all add: appInv_step)

lemma appInv_run: "appInv (snd (run env actions))"
  by (simp add: run_def appInv_foldl appInv_initial)

lemma funpow_undoEntry:
  "0 \<le> currentIndex res \<Longrightarrow> (undoEntry ^^ n) res = res\<lparr>currentIndex := max 0 (currentIndex res - int n)\<rparr>"
  by (induction n) (auto simp: undoEntry_def max_def)

lemma funpow_redoEntry:
  "currentIndex res \<le> int (length (imageHistory res)) - 1 \<Longrightarrow>
   (redoEntry ^^ n) res =
     res\<lparr>currentIndex := min (int (length (imageHistory res)) - 1) (currentIndex res + int n)\<rparr>"
  by (induction n) (auto simp: redoEntry_def min_def)

lemma funpow_handleUndo:
  "((\<lambda>a. handleUndo a rid) ^^ n) app =
     app\<lparr>results := map (\<lambda>res. if id_r res = rid then (undoEntry ^^ n) res else res) (results app)\<rparr>"
proof (induction n)
  case 0
  show ?case by (simp cong: if_cong)
next
  case (Suc n)
  have id: "id_r ((undoEntry ^^ n) res) = id_r res" for res
    by (induction n) (simp_all add: undoEntry_def)
  have "((\<lambda>a. handleUndo a rid) ^^ Suc n) app = handleUndo (((\<lambda>a. handleUndo a rid) ^^ n) app) rid"
    by simp
  also have "\<dots> = handleUndo (app\<lparr>results := map (\<lambda>res. if id_r res = rid then (undoEntry ^^ n) res else res) (results app)\<rparr>) rid"
    by (simp only: Suc)
  also have "\<dots> = app\<lparr>results := map (\<lambda>res. if id_r res = rid then (undoEntry ^^ Suc n) res else res) (results app)\<rparr>"
    by (simp add: handleUndo_def undoUpdater_def id comp_def cong: if_cong)
  finally show ?case .
qed

lemma funpow_handleRedo:
  "((\<lambda>a. handleRedo a rid) ^^ n) app =
     app\<lparr>results := map (\<lambda>res. if id_r res = rid then (redoEntry ^^ n) res else res) (results app)\<rparr>"
proof (induction n)
  case 0
  show ?case by (simp cong: if_cong)
next
  case (Suc n)
  have id: "id_r ((redoEntry ^^ n) res) = id_r res" for res
    by (induction n) (simp_all add: redoEntry_def)
  have "((\<lambda>a. handleRedo a rid) ^^ Suc n) app = handleRedo (((\<lambda>a. handleRedo a rid) ^^ n) app) rid"
    by simp
  also have "\<dots> = handleRedo (app\<lparr>results := map (\<lambda>res. if id_r res = rid then (redoEntry ^^ n) res else res) (results app)\<rparr>) rid"
    by (simp only: Suc)
  also have "\<dots> = app\<lparr>results := map (\<lambda>res. if id_r res = rid then (redoEntry ^^ Suc n) res else res) (results app)\<rparr>"
    by (simp add: handleRedo_def redoUpdater_def id comp_def cong: if_cong)
  finally show ?case .
qed


lemma handleUndo_noop:
  assumes "\<forall>res \<in> set (results app). id_r res = rid \<longrightarrow> currentIndex res = 0"
  shows "handleUndo app rid = app"
proof -
  have "map (\<lambda>res. if id_r res = rid then undoEntry res else res) (results app) = results app"
    using assms by (intro map_idI) (auto simp: undoEntry_def)
  then show ?thesis by (simp add: handleUndo_def undoUpdater_def)
qed

lemma handleRedo_noop:
  assumes "\<forall>res \<in> set (results app). id_r res = rid \<longrightarrow>
             currentIndex res = int (length (imageHistory res)) - 1"
  shows "handleRedo app rid = app"
proof -
  have "map (\<lambda>res. if id_r res = rid then redoEntry res else res) (results app) = results app"
    using assms by (intro map_idI) (auto simp: redoEntry_def)
  then show ?thesis by (simp add: handleRedo_def redoUpdater_def)
qed

lemma repeated_undo:
  assumes "appInv app"
  shows "results (((\<lambda>a. handleUndo a rid) ^^ n) app) =
     map (\<lambda>res. if id_r res = rid then res\<lparr>currentIndex := max 0 (currentIndex res - int n)\<rparr> else res)
       (results app)"
proof -
  have "\<forall>res \<in> set (results app). 0 \<le> currentIndex res"
    using assms by (simp add: appInv_def list_all_iff entryInv_def)
  then show ?thesis
    by (simp add: funpow_handleUndo funpow_undoEntry cong: map_cong)
qed

lemma repeated_redo:
  assumes "appInv app"
  shows "results (((\<lambda>a. handleRedo a rid) ^^ n) app) =
     map (\<lambda>res. if id_r res = rid
                then res\<lparr>currentIndex := min (int (length (imageHistory res)) - 1) (currentIndex res + int n)\<rparr>
                else res)
       (results app)"
proof -
  have "\<forall>res \<in> set (results app). currentIndex res \<le> int (length (imageHistory res)) - 1"
    using assms by (simp add: appInv_def list_all_iff entryInv_def)
  then show ?thesis
    by (simp add: funpow_handleRedo funpow_redoEntry cong: map_cong)
qed

lemma appInv_funpow_undo: "appInv app \<Longrightarrow> appInv (((\<lambda>a. handleUndo a rid) ^^ n) app)"
  by (induction n) (simp_all add: appInv_def handleUndo_def inv_undoUpdater)

lemma appInv_funpow_redo: "appInv app \<Longrightarrow> appInv (((\<lambda>a. handleRedo a rid) ^^ n) app)"
  by (induction n) (simp_all add: appInv_def handleRedo_def inv_redoUpdater)

text \<open>
  C2. \<open>handleUndo\<close> sets the current index of the entries with the given id to
  \<open>max 0 (currentIndex - 1)\<close> and \<open>handleRedo\<close> sets it to
  \<open>min (length imageHistory - 1) (currentIndex + 1)\<close>. An undo at index 0 and a redo at the
  last index change nothing. From a state whose entries satisfy the invariant
  \<open>0 \<le> currentIndex \<le> length imageHistory - 1\<close>, \<open>n\<close> undos end at \<open>max 0 (currentIndex - n)\<close>
  and \<open>n\<close> redos at \<open>min (length imageHistory - 1) (currentIndex + n)\<close>, inside the bounds.
  Every action (generation, refinement with whatever is delivered during its call, undo,
  redo, prompt change and the others) keeps the
  invariant for all entries of the current results and of the recorded batches, and it
  holds in every state that a run of events reaches from the initial state. Each of the
  four updaters keeps it for whatever index, image or id it carries, so also when a
  refinement returns after the result set has been replaced.
\<close>

theorem undo_redo_within_bounds:
  "results (handleUndo app rid) =
     map (\<lambda>res. if id_r res = rid then res\<lparr>currentIndex := max 0 (currentIndex res - 1)\<rparr> else res)
       (results app) \<and>
   results (handleRedo app rid) =
     map (\<lambda>res. if id_r res = rid
                then res\<lparr>currentIndex := min (int (length (imageHistory res)) - 1) (currentIndex res + 1)\<rparr>
                else res)
       (results app) \<and>
   ((\<forall>res \<in> set (results app). id_r res = rid \<longrightarrow> currentIndex res = 0) \<longrightarrow>
      handleUndo app rid = app) \<and>
   ((\<forall>res \<in> set (results app). id_r res = rid \<longrightarrow>
        currentIndex res = int (length (imageHistory res)) - 1) \<longrightarrow>
      handleRedo app rid = app) \<and>
   (appInv app \<longrightarrow>
      results (((\<lambda>a. handleUndo a rid) ^^ n) app) =
        map (\<lambda>res. if id_r res = rid then res\<lparr>currentIndex := max 0 (currentIndex res - int n)\<rparr> else res)
          (results app) \<and>
      results (((\<lambda>a. handleRedo a rid) ^^ n) app) =
        map (\<lambda>res. if id_r res = rid
                   then res\<lparr>currentIndex := min (int (length (imageHistory res)) - 1) (currentIndex res + int n)\<rparr>
                   else res)
          (results app) \<and>
      appInv (((\<lambda>a. handleUndo a rid) ^^ n) app) \<and>
      appInv (((\<lambda>a. handleRedo a rid) ^^ n) app)) \<and>
   (appInv (snd s) \<longrightarrow> appInv (snd (step env s a))) \<and>
   (list_all entryInv prev \<longrightarrow> list_all entryInv (applyUpdate u prev)) \<and>
   appInv (snd (run env actions))"
proof -
  have undo: "results (handleUndo app rid) =
     map (\<lambda>res. if id_r res = rid then res\<lparr>currentIndex := max 0 (currentIndex res - 1)\<rparr> else res)
       (results app)"
    by (simp add: handleUndo_def undoUpdater_def undoEntry_def)
  have redo: "results (handleRedo app rid) =
     map (\<lambda>res. if id_r res = rid
                then res\<lparr>currentIndex := min (int (length (imageHistory res)) - 1) (currentIndex res + 1)\<rparr>
                else res)
       (results app)"
    by (simp add: handleRedo_def redoUpdater_def redoEntry_def)
  show ?thesis
    by (intro conjI impI undo redo handleUndo_noop handleRedo_noop repeated_undo repeated_redo
        appInv_funpow_undo appInv_funpow_redo appInv_step inv_applyUpdate appInv_run)
qed

theorem undo_redo_within_bounds_witness:
  "handleUndo appABC ''result-7-0'' = appABC \<and>
   handleRedo appTop ''result-7-0'' = appTop \<and>
   results (((\<lambda>a. handleRedo a ''result-7-0'') ^^ 5) appABC) = [entryABC\<lparr>currentIndex := 2\<rparr>] \<and>
   results (((\<lambda>a. handleUndo a ''result-7-0'') ^^ 5) appTop) = [entryABC] \<and>
   appInv (((\<lambda>a. handleUndo a ''result-7-0'') ^^ 5) appABC) \<and>
   appInv (((\<lambda>a. handleRedo a ''result-7-0'') ^^ 5) appABC) \<and>
   appInv (snd (step envD (initialSvc, appTwo) (Refinement ''result-7-0'' ''bluer'' [HistoryClick 0]))) \<and>
   list_all entryInv (applyUpdate (RefineU 0 imgD) [entryABC]) \<and>
   appInv (snd (run envD sessionActs))"
proof -
  have invABC: "appInv appABC"
    by (simp add: appInv_def appABC_def entryABC_def entryInv_def initialApp_def)
  have invTop: "appInv appTop"
    by (simp add: appInv_def appTop_def entryABC_def entryInv_def initialApp_def)
  have atBottom: "\<forall>res \<in> set (results appABC). id_r res = ''result-7-0'' \<longrightarrow> currentIndex res = 0"
    by (simp add: appABC_def entryABC_def)
  have atTop: "\<forall>res \<in> set (results appTop). id_r res = ''result-7-0'' \<longrightarrow>
      currentIndex res = int (length (imageHistory res)) - 1"
    by (simp add: appTop_def entryABC_def)
  have invTwo: "appInv appTwo"
    by (simp add: appInv_def appTwo_def entryABC_def entryXY_def entryInv_def initialApp_def)
  note low = undo_redo_within_bounds [where app = appABC and rid = "''result-7-0''" and n = 5
      and s = "(initialSvc, appTwo)" and env = envD
      and a = "Refinement ''result-7-0'' ''bluer'' [HistoryClick 0]"
      and actions = sessionActs and prev = "[entryABC]" and u = "RefineU 0 imgD"]
  note high = undo_redo_within_bounds [where app = appTop and rid = "''result-7-0''" and n = 5
      and s = "(initialSvc, appTop)" and env = envD and a = "Deliver (Undo ''result-7-0'')"
      and actions = "[]"]
  have 1: "handleUndo appABC ''result-7-0'' = appABC"
    using low atBottom by blast
  have 2: "handleRedo appTop ''result-7-0'' = appTop"
    using high atTop by blast
  have 3: "results (((\<lambda>a. handleRedo a ''result-7-0'') ^^ 5) appABC) = [entryABC\<lparr>currentIndex := 2\<rparr>]"
    using low invABC by (simp add: appABC_def entryABC_def)
  have 4: "results (((\<lambda>a. handleUndo a ''result-7-0'') ^^ 5) appTop) = [entryABC]"
    using high invTop by (simp add: appTop_def entryABC_def)
  have 5: "appInv (((\<lambda>a. handleUndo a ''result-7-0'') ^^ 5) appABC)"
      "appInv (((\<lambda>a. handleRedo a ''result-7-0'') ^^ 5) appABC)"
    using low invABC by blast+
  have 6: "appInv (snd (step envD (initialSvc, appTwo) (Refinement ''result-7-0'' ''bluer'' [HistoryClick 0])))"
    using low invTwo by (simp del: step.simps)
  have 7: "appInv (snd (run envD sessionActs))"
    using low by blast
  have 8: "list_all entryInv (applyUpdate (RefineU 0 imgD) [entryABC])"
    using low invABC by (simp add: appInv_def appABC_def del: applyUpdate.simps)
  from 1 2 3 4 5 6 7 8 show ?thesis by blast
qed

section \<open>The generation service\<close>

subsection \<open>What \<open>generatePhotos\<close> sends and returns\<close>

lemma getAi_available:
  assumes "clientAvailable env svc"
  shows "\<exists>k. getAi env svc = Inr (svc\<lparr>ai := Some k\<rparr>)"
proof (cases "ai svc")
  case None
  with assms show ?thesis by (auto simp: getAi_def clientAvailable_def)
next
  case (Some k)
  then have "svc\<lparr>ai := Some k\<rparr> = svc" by simp
  with Some show ?thesis by (metis getAi_def option.distinct(1))
qed

lemma getAi_unavailable:
  assumes "\<not> clientAvailable env svc"
  shows "getAi env svc = Inl (Error ''API_KEY environment variable is not set.'')"
  using assms by (auto simp: getAi_def clientAvailable_def)

lemma getAi_calls: "getAi env svc = Inr svc0 \<Longrightarrow> calls svc0 = calls svc"
  by (auto simp: getAi_def split: if_splits)

lemma issueCalls_eq:
  "issueCalls env n req svc =
     (svc\<lparr>calls := calls svc @ replicate n req\<rparr>,
      map (\<lambda>k. (settledAt env (length (calls svc) + k),
                 generateContent env (length (calls svc) + k) req)) [0..<n])"
proof (induction n arbitrary: svc)
  case 0
  then show ?case by simp
next
  case (Suc n)
  have "map (\<lambda>k. (settledAt env (length (calls svc) + k),
                   generateContent env (length (calls svc) + k) req)) [0..<Suc n] =
      (settledAt env (length (calls svc)), generateContent env (length (calls svc)) req) #
      map (\<lambda>k. (settledAt env (Suc (length (calls svc)) + k),
                 generateContent env (Suc (length (calls svc)) + k) req)) [0..<n]"
    by (simp add: upt_conv_Cons map_Suc_upt [symmetric] del: upt_Suc)
  then show ?case
    by (simp add: Suc callApi_def replicate_append_same del: upt_Suc)
qed

lemma imageUrlOf_partsPresent: "partsPresent r \<Longrightarrow> imageUrlOf r = Inr (imageOf r)"
  by (auto simp: imageOf_def imageUrlOf_def findImageData_def partsPresent_def
      split: option.splits sum.splits)

lemma imageUrlOf_partless:
  "\<not> partsPresent r \<Longrightarrow>
   imageUrlOf r = Inl (TypeError ''Cannot read properties of undefined (reading 'find')'')"
  by (auto simp: imageUrlOf_def findImageData_def partsPresent_def split: option.splits)

lemma imageUrlOf_Inr: "imageUrlOf r = Inr u \<Longrightarrow> partsPresent r \<and> u = imageOf r"
  using imageUrlOf_partless [of r] imageUrlOf_partsPresent [of r] by (cases "partsPresent r") simp_all

lemma findImageData_imageUrlOf:
  "(case findImageData r of
      Inl e \<Rightarrow> (s, Inl e)
    | Inr (Some b) \<Rightarrow> (s, Inr [dataUrl b])
    | Inr None \<Rightarrow> (s, Inr [])) =
   (s, case imageUrlOf r of
         Inl e \<Rightarrow> Inl e
       | Inr u \<Rightarrow> Inr (case u of None \<Rightarrow> [] | Some v \<Rightarrow> [v]))"
  by (simp add: imageUrlOf_def split: sum.splits option.splits)

lemma earliestRejection_None:
  "earliestRejection ps = None \<longleftrightarrow> (\<exists>rs. map snd ps = map Resolved rs)"
proof (induction ps rule: earliestRejection.induct)
  case 1
  then show ?case by simp
next
  case (2 t r ps)
  show ?case
  proof
    assume "earliestRejection ((t, Resolved r) # ps) = None"
    with 2 obtain rs where "map snd ps = map Resolved rs" by auto
    then have "map snd ((t, Resolved r) # ps) = map Resolved (r # rs)" by simp
    then show "\<exists>rs. map snd ((t, Resolved r) # ps) = map Resolved rs" by blast
  next
    assume "\<exists>rs. map snd ((t, Resolved r) # ps) = map Resolved rs"
    then obtain rs where "map snd ((t, Resolved r) # ps) = map Resolved rs" ..
    then have "map snd ps = map Resolved (tl rs)" by (cases rs) simp_all
    with 2 show "earliestRejection ((t, Resolved r) # ps) = None" by auto
  qed
next
  case (3 t e ps)
  have "map snd ((t, Rejected e) # ps) \<noteq> map Resolved rs" for rs
    by (cases rs) simp_all
  then show ?case by (simp split: option.splits)
qed

lemma earliestRejection_Some:
  "earliestRejection ps = Some (t, e) \<Longrightarrow>
     (t, Rejected e) \<in> set ps \<and> (\<forall>t' e'. (t', Rejected e') \<in> set ps \<longrightarrow> t \<le> t')"
proof (induction ps arbitrary: t e rule: earliestRejection.induct)
  case 1
  then show ?case by simp
next
  case (2 t0 r ps)
  then show ?case by auto
next
  case (3 t0 e0 ps)
  show ?case
  proof (cases "earliestRejection ps")
    case None
    then obtain rs where rs: "map snd ps = map Resolved rs"
      using earliestRejection_None by blast
    have "False" if "(t', Rejected e') \<in> set ps" for t' e'
    proof -
      from that have "Rejected e' \<in> set (map snd ps)" by force
      with rs show False by auto
    qed
    with None 3(2) show ?thesis by auto
  next
    case (Some p)
    obtain t1 e1 where p: "p = (t1, e1)" by (cases p)
    from 3(1) [OF Some [unfolded p]]
    have ih: "(t1, Rejected e1) \<in> set ps" "\<forall>t' e'. (t', Rejected e') \<in> set ps \<longrightarrow> t1 \<le> t'"
      by blast+
    show ?thesis
    proof (cases "t1 < t0")
      case True
      with Some p 3(2) have "t = t1" "e = e1" by simp_all
      with ih True show ?thesis by auto
    next
      case False
      with Some p 3(2) have "t = t0" "e = e0" by simp_all
      with ih False show ?thesis by fastforce
    qed
  qed
qed

lemma promiseAll_resolved: "map snd ps = map Resolved rs \<Longrightarrow> promiseAll ps = Inr rs"
proof (induction ps arbitrary: rs rule: earliestRejection.induct)
  case 1
  then show ?case by (simp add: promiseAll_def)
next
  case (2 t r ps)
  then obtain rs' where rs: "rs = r # rs'" "map snd ps = map Resolved rs'"
    by (cases rs) auto
  from 2(1) [OF rs(2)] show ?case
    by (simp add: promiseAll_def rs(1) split: option.splits prod.splits)
next
  case (3 t e ps)
  then show ?case by (cases rs) simp_all
qed

lemma promiseAll_Inr: "promiseAll ps = Inr rs \<Longrightarrow> map snd ps = map Resolved rs"
proof -
  assume a: "promiseAll ps = Inr rs"
  then have "earliestRejection ps = None"
    by (simp add: promiseAll_def split: option.splits prod.splits)
  then obtain rs' where rs': "map snd ps = map Resolved rs'"
    using earliestRejection_None by blast
  from promiseAll_resolved [OF this] a have "rs' = rs" by simp
  with rs' show ?thesis by simp
qed

lemma promiseAll_Inl:
  "promiseAll ps = Inl e \<Longrightarrow>
     \<exists>t. (t, Rejected e) \<in> set ps \<and> (\<forall>t' e'. (t', Rejected e') \<in> set ps \<longrightarrow> t \<le> t')"
proof -
  assume "promiseAll ps = Inl e"
  then obtain t where "earliestRejection ps = Some (t, e)"
    by (auto simp: promiseAll_def split: option.splits prod.splits)
  from earliestRejection_Some [OF this] show ?thesis by blast
qed

lemma promiseAll_rejected: "(t, Rejected e) \<in> set ps \<Longrightarrow> \<exists>e'. promiseAll ps = Inl e'"
proof -
  assume a: "(t, Rejected e) \<in> set ps"
  have "earliestRejection ps \<noteq> None"
  proof
    assume "earliestRejection ps = None"
    then obtain rs where "map snd ps = map Resolved rs"
      using earliestRejection_None by blast
    moreover from a have "Rejected e \<in> set (map snd ps)" by force
    ultimately show False by auto
  qed
  then show ?thesis
    by (auto simp: promiseAll_def split: option.splits prod.splits)
qed

lemma mapThrowing_ok:
  "list_all partsPresent rs \<Longrightarrow> mapThrowing imageUrlOf rs = Inr (map imageOf rs)"
  by (induction rs) (simp_all add: imageUrlOf_partsPresent)

lemma mapThrowing_Inr:
  "mapThrowing imageUrlOf rs = Inr urls \<Longrightarrow> list_all partsPresent rs \<and> urls = map imageOf rs"
proof (induction rs arbitrary: urls)
  case Nil
  then show ?case by simp
next
  case (Cons r rs)
  from Cons.prems obtain u us where
    u: "imageUrlOf r = Inr u" "mapThrowing imageUrlOf rs = Inr us" "urls = u # us"
    by (auto split: sum.splits)
  from imageUrlOf_Inr [OF u(1)] Cons.IH [OF u(2)] u(3) show ?case by simp
qed

lemma mapThrowing_partless:
  "\<not> list_all partsPresent rs \<Longrightarrow>
   mapThrowing imageUrlOf rs = Inl (TypeError ''Cannot read properties of undefined (reading 'find')'')"
proof (induction rs)
  case Nil
  then show ?case by simp
next
  case (Cons r rs)
  show ?case
  proof (cases "partsPresent r")
    case True
    with Cons show ?thesis by (simp add: imageUrlOf_partsPresent)
  next
    case False
    then show ?thesis by (simp add: imageUrlOf_partless)
  qed
qed

lemma filterNonNull_map_filter: "filterNonNull (map f xs) = List.map_filter f xs"
  by (induction xs) (auto simp: List.map_filter_simps split: option.splits)

lemma length_map_filter_le: "length (List.map_filter f xs) \<le> length xs"
  by (simp add: List.map_filter_def)


lemma generatePhotos_reference:
  assumes "getAi env svc = Inr svc0"
  shows "generatePhotos env svc P M (Some R) theme custom extra =
    (let req = request [fileToGenerativePart P, fileToGenerativePart R,
                 textPart (instructionText_spec M (Some R) theme custom extra)]
     in (svc0\<lparr>calls := calls svc @ [req]\<rparr>,
         case generateContent env (length (calls svc)) req of
           Rejected e \<Rightarrow> Inl e
         | Resolved response \<Rightarrow>
             (case imageUrlOf response of
                Inl e \<Rightarrow> Inl e
              | Inr u \<Rightarrow> Inr (case u of None \<Rightarrow> [] | Some v \<Rightarrow> [v]))))"
proof -
  define base where "base = ''Generate 1 product photo that matches the style of the reference photo. The logo, text, shape, and product color must not be altered.''"
  define ft where "ft = (if theme = ''None'' then custom else theme)"
  define itext where "itext = instructionText_spec M (Some R) theme custom extra"
  have bp: "basePrompt_spec M (Some R) = base"
    by (simp add: basePrompt_spec_def base_def)
  have itext: "itext = (let prompt = base;
        prompt = (if ft \<noteq> [] then prompt @ '' The theme should be: '' @ ft @ ''.'' else prompt);
        prompt = (if extra \<noteq> [] then prompt @ '' Additional instructions: '' @ extra @ ''.'' else prompt)
      in prompt)"
    by (simp add: itext_def instructionText_spec_def bp clauses_spec_def effectiveTheme_spec_def
        themeClause_spec_def extraClause_spec_def ft_def)
  have "generatePhotos env svc P M (Some R) theme custom extra =
     (let (svc1, out) = callApi env svc0 (request [fileToGenerativePart P, fileToGenerativePart R, textPart itext])
      in case out of
           Rejected e \<Rightarrow> (svc1, Inl e)
         | Resolved response \<Rightarrow>
             (case findImageData response of
                Inl e \<Rightarrow> (svc1, Inl e)
              | Inr (Some b) \<Rightarrow> (svc1, Inr [dataUrl b])
              | Inr None \<Rightarrow> (svc1, Inr [])))"
    unfolding generatePhotos_def base_def [symmetric] itext
    by (simp only: assms sum.case option.case Let_def ft_def)
  also have "\<dots> = (let req = request [fileToGenerativePart P, fileToGenerativePart R, textPart itext]
     in (svc0\<lparr>calls := calls svc @ [req]\<rparr>,
         case generateContent env (length (calls svc)) req of
           Rejected e \<Rightarrow> Inl e
         | Resolved response \<Rightarrow>
             (case imageUrlOf response of
                Inl e \<Rightarrow> Inl e
              | Inr u \<Rightarrow> Inr (case u of None \<Rightarrow> [] | Some v \<Rightarrow> [v]))))"
    using getAi_calls [OF assms]
    by (simp add: callApi_def Let_def findImageData_imageUrlOf split: Outcome.splits)
  finally show ?thesis by (simp only: itext_def)
qed

lemma generatePhotos_bulk:
  assumes "getAi env svc = Inr svc0"
  shows "generatePhotos env svc P M None theme custom extra =
    (let req = request ((case M of Some mp \<Rightarrow> [fileToGenerativePart P, fileToGenerativePart mp]
                                 | None \<Rightarrow> [fileToGenerativePart P]) @
                 [textPart (instructionText_spec M None theme custom extra)])
     in (svc0\<lparr>calls := calls svc @ replicate 4 req\<rparr>,
         case promiseAll (map (\<lambda>k. (settledAt env (length (calls svc) + k),
                                      generateContent env (length (calls svc) + k) req)) [0..<4]) of
           Inl e \<Rightarrow> Inl e
         | Inr responses \<Rightarrow>
             (case mapThrowing imageUrlOf responses of
                Inl e \<Rightarrow> Inl e
              | Inr urls \<Rightarrow> Inr (filterNonNull urls))))"
proof -
  define baseM where "baseM = ''Generate a professional photo of the provided model holding or wearing the product. Add supporting props to make the photo more appealing. It is absolutely crucial that the model's face remains consistent and unchanged from the source photo. Do not alter the facial features. Create a unique variation with a different body pose, facial expression, lighting, composition, or camera angle.''"
  define baseP where "baseP = ''Generate a professional variation of the product in the image with different lighting, composition, and camera angles. Add supporting props to make the product photo more appealing.''"
  define ft where "ft = (if theme = ''None'' then custom else theme)"
  define itext where "itext = instructionText_spec M None theme custom extra"
  define ps where "ps = (case M of Some mp \<Rightarrow> [fileToGenerativePart P, fileToGenerativePart mp]
                                 | None \<Rightarrow> [fileToGenerativePart P])"
  have bp: "basePrompt_spec M None = (case M of Some mp \<Rightarrow> baseM | None \<Rightarrow> baseP)"
    by (simp add: basePrompt_spec_def baseM_def baseP_def split: option.splits)
  have itext: "itext = (let fullPrompt = (case M of Some mp \<Rightarrow> baseM | None \<Rightarrow> baseP);
        fullPrompt = (if ft \<noteq> [] then fullPrompt @ '' The theme should be: '' @ ft @ ''.'' else fullPrompt);
        fullPrompt = (if extra \<noteq> [] then fullPrompt @ '' Additional instructions: '' @ extra @ ''.'' else fullPrompt)
      in fullPrompt)"
    by (simp add: itext_def instructionText_spec_def bp clauses_spec_def effectiveTheme_spec_def
        themeClause_spec_def extraClause_spec_def ft_def)
  have "generatePhotos env svc P M None theme custom extra =
     (let (svc1, generationPromises) = issueCalls env 4 (request (ps @ [textPart itext])) svc0
      in case promiseAll generationPromises of
           Inl e \<Rightarrow> (svc1, Inl e)
         | Inr responses \<Rightarrow>
             (case mapThrowing imageUrlOf responses of
                Inl e \<Rightarrow> (svc1, Inl e)
              | Inr urls \<Rightarrow> (svc1, Inr (filterNonNull urls))))"
    unfolding generatePhotos_def baseM_def [symmetric] baseP_def [symmetric] itext ps_def
    by (cases M) (simp_all only: assms sum.case option.case prod.case Let_def ft_def)
  also have "\<dots> = (let req = request (ps @ [textPart itext])
     in (svc0\<lparr>calls := calls svc @ replicate 4 req\<rparr>,
         case promiseAll (map (\<lambda>k. (settledAt env (length (calls svc) + k),
                                      generateContent env (length (calls svc) + k) req)) [0..<4]) of
           Inl e \<Rightarrow> Inl e
         | Inr responses \<Rightarrow>
             (case mapThrowing imageUrlOf responses of
                Inl e \<Rightarrow> Inl e
              | Inr urls \<Rightarrow> Inr (filterNonNull urls))))"
    using getAi_calls [OF assms]
    by (simp add: issueCalls_eq Let_def split: sum.splits del: upt_Suc)
  finally show ?thesis by (simp only: itext_def ps_def)
qed

lemma generatePhotos_unavailable:
  assumes "\<not> clientAvailable env svc"
  shows "generatePhotos env svc P M R theme custom extra =
     (svc, Inl (Error ''API_KEY environment variable is not set.''))"
  unfolding generatePhotos_def getAi_unavailable [OF assms] by (simp only: sum.case)

lemma newCalls_append: "calls svc' = calls svc @ xs \<Longrightarrow> newCalls svc svc' = xs"
  by (simp add: newCalls_def)

lemma outcomesOf_append:
  assumes "calls svc' = calls svc @ xs"
  shows "outcomesOf env svc svc' =
     map (\<lambda>k. generateContent env (length (calls svc) + k) (xs ! k)) [0..<length xs]"
proof -
  have "[length (calls svc)..<length (calls svc) + length xs] =
      map (\<lambda>k. length (calls svc) + k) [0..<length xs]"
    by (induction xs rule: rev_induct) simp_all
  then show ?thesis
    by (simp add: outcomesOf_def assms nth_append comp_def)
qed

lemma generatePhotos_cases:
  obtains (unavailable) "\<not> clientAvailable env svc"
      "generatePhotos env svc P M R theme custom extra =
         (svc, Inl (Error ''API_KEY environment variable is not set.''))"
    | (reference) k rp req where "R = Some rp"
      "req = request [fileToGenerativePart P, fileToGenerativePart rp,
                 textPart (instructionText_spec M R theme custom extra)]"
      "generatePhotos env svc P M R theme custom extra =
         (svc\<lparr>ai := Some k, calls := calls svc @ [req]\<rparr>,
          case generateContent env (length (calls svc)) req of
            Rejected e \<Rightarrow> Inl e
          | Resolved response \<Rightarrow>
              (case imageUrlOf response of
                 Inl e \<Rightarrow> Inl e
               | Inr u \<Rightarrow> Inr (case u of None \<Rightarrow> [] | Some v \<Rightarrow> [v])))"
    | (bulk) k req where "R = None"
      "req = request ((case M of Some mp \<Rightarrow> [fileToGenerativePart P, fileToGenerativePart mp]
                                 | None \<Rightarrow> [fileToGenerativePart P]) @
                 [textPart (instructionText_spec M R theme custom extra)])"
      "generatePhotos env svc P M R theme custom extra =
         (svc\<lparr>ai := Some k, calls := calls svc @ replicate 4 req\<rparr>,
          case promiseAll (map (\<lambda>k. (settledAt env (length (calls svc) + k),
                                       generateContent env (length (calls svc) + k) req)) [0..<4]) of
            Inl e \<Rightarrow> Inl e
          | Inr responses \<Rightarrow>
              (case mapThrowing imageUrlOf responses of
                 Inl e \<Rightarrow> Inl e
               | Inr urls \<Rightarrow> Inr (filterNonNull urls)))"
proof (cases "clientAvailable env svc")
  case False
  then show ?thesis using generatePhotos_unavailable unavailable by blast
next
  case True
  from getAi_available [OF this] obtain k where k: "getAi env svc = Inr (svc\<lparr>ai := Some k\<rparr>)" ..
  show ?thesis
  proof (cases R)
    case None
    have "generatePhotos env svc P M R theme custom extra =
         (svc\<lparr>ai := Some k, calls := calls svc @ replicate 4 (request ((case M of Some mp \<Rightarrow> [fileToGenerativePart P, fileToGenerativePart mp]
                                 | None \<Rightarrow> [fileToGenerativePart P]) @
                 [textPart (instructionText_spec M R theme custom extra)]))\<rparr>,
          case promiseAll (map (\<lambda>j. (settledAt env (length (calls svc) + j),
               generateContent env (length (calls svc) + j) (request ((case M of Some mp \<Rightarrow> [fileToGenerativePart P, fileToGenerativePart mp]
                                 | None \<Rightarrow> [fileToGenerativePart P]) @
                 [textPart (instructionText_spec M R theme custom extra)])))) [0..<4]) of
            Inl e \<Rightarrow> Inl e
          | Inr responses \<Rightarrow>
              (case mapThrowing imageUrlOf responses of
                 Inl e \<Rightarrow> Inl e
               | Inr urls \<Rightarrow> Inr (filterNonNull urls)))"
      unfolding None generatePhotos_bulk [OF k] Let_def ..
    with None show ?thesis by (intro bulk [OF _ refl])
  next
    case (Some rp)
    have "generatePhotos env svc P M R theme custom extra =
         (svc\<lparr>ai := Some k, calls := calls svc @ [request [fileToGenerativePart P, fileToGenerativePart rp,
                 textPart (instructionText_spec M R theme custom extra)]]\<rparr>,
          case generateContent env (length (calls svc)) (request [fileToGenerativePart P, fileToGenerativePart rp,
                 textPart (instructionText_spec M R theme custom extra)]) of
            Rejected e \<Rightarrow> Inl e
          | Resolved response \<Rightarrow>
              (case imageUrlOf response of
                 Inl e \<Rightarrow> Inl e
               | Inr u \<Rightarrow> Inr (case u of None \<Rightarrow> [] | Some v \<Rightarrow> [v])))"
      unfolding Some generatePhotos_reference [OF k] Let_def ..
    with Some show ?thesis by (intro reference [OF _ refl])
  qed
qed

lemma response_shapes:
  "partsPresent respNone" "partsPresent respD" "partsPresent (respImg d)" "\<not> partsPresent respPartless"
  "imageOf respNone = None" "imageOf respD = Some imgD"
  "imageOf (respImg d) = Some (''data:image/png;base64,'' @ d)"
  by (simp_all add: partsPresent_def imageOf_def imageUrlOf_def findImageData_def respNone_def
      respD_def respImg_def respPartless_def jsIndex_def textPart_def inlinePart_def dataUrl_def
      str_def imgD_def)

subsection \<open>Reference mode\<close>

text \<open>
  C3. With a reference photo present, whether or not a model photo is present too, and
  with the client available (it exists already, or \<open>API_KEY\<close> is set and not empty),
  \<open>generatePhotos\<close> sends exactly one request, carrying the product part, the reference
  part and the instruction text. If the call is rejected, the rejection is the result. If
  it resolves with a response whose content, when it has one, has parts, the result is the
  list of the 0 or 1 image URLs of the response. With no client available, \<open>generatePhotos\<close>
  fails with the message of \<open>getAi\<close> and the service state is as before: no request is
  sent. A returned list never holds more than one image. What happens on a response whose
  content has no parts is not part of this statement.
\<close>

theorem reference_mode_single_call:
  assumes "req = request [fileToGenerativePart P, fileToGenerativePart R,
                 textPart (instructionText_spec M (Some R) theme custom extra)]"
  shows "(clientAvailable env svc \<longrightarrow>
       calls (fst (generatePhotos env svc P M (Some R) theme custom extra)) = calls svc @ [req] \<and>
       (\<forall>e. generateContent env (length (calls svc)) req = Rejected e \<longrightarrow>
          snd (generatePhotos env svc P M (Some R) theme custom extra) = Inl e) \<and>
       (\<forall>response. generateContent env (length (calls svc)) req = Resolved response \<and>
            partsPresent response \<longrightarrow>
          snd (generatePhotos env svc P M (Some R) theme custom extra) =
            Inr (case imageOf response of None \<Rightarrow> [] | Some u \<Rightarrow> [u]))) \<and>
     (\<not> clientAvailable env svc \<longrightarrow>
       generatePhotos env svc P M (Some R) theme custom extra =
         (svc, Inl (Error ''API_KEY environment variable is not set.''))) \<and>
     (\<forall>urls. snd (generatePhotos env svc P M (Some R) theme custom extra) = Inr urls \<longrightarrow>
        length urls \<le> 1)"
proof -
  let ?g = "generatePhotos env svc P M (Some R) theme custom extra"
  have avail: "calls (fst ?g) = calls svc @ [req] \<and>
       (\<forall>e. generateContent env (length (calls svc)) req = Rejected e \<longrightarrow> snd ?g = Inl e) \<and>
       (\<forall>response. generateContent env (length (calls svc)) req = Resolved response \<and>
            partsPresent response \<longrightarrow>
          snd ?g = Inr (case imageOf response of None \<Rightarrow> [] | Some u \<Rightarrow> [u]))"
    if "clientAvailable env svc"
  proof -
    from getAi_available [OF that] obtain k where "getAi env svc = Inr (svc\<lparr>ai := Some k\<rparr>)" ..
    from generatePhotos_reference [OF this, where P = P and R = R and M = M and theme = theme
        and custom = custom and extra = extra]
    have g: "?g = (svc\<lparr>ai := Some k, calls := calls svc @ [req]\<rparr>,
         case generateContent env (length (calls svc)) req of
           Rejected e \<Rightarrow> Inl e
         | Resolved response \<Rightarrow>
             (case imageUrlOf response of
                Inl e \<Rightarrow> Inl e
              | Inr u \<Rightarrow> Inr (case u of None \<Rightarrow> [] | Some v \<Rightarrow> [v])))"
      by (simp add: Let_def assms)
    show ?thesis
      by (simp add: g imageUrlOf_partsPresent)
  qed
  have unavail: "?g = (svc, Inl (Error ''API_KEY environment variable is not set.''))"
    if "\<not> clientAvailable env svc"
    using that by (rule generatePhotos_unavailable)
  have bound: "length urls \<le> 1" if "snd ?g = Inr urls" for urls
  proof (cases rule: generatePhotos_cases [of env svc P M "Some R" theme custom extra])
    case unavailable
    with that show ?thesis by simp
  next
    case (reference k rp req')
    with that show ?thesis
      by (auto split: Outcome.splits sum.splits option.splits)
  next
    case (bulk k req')
    then show ?thesis by simp
  qed
  from avail unavail bound show ?thesis by blast
qed

theorem reference_mode_single_call_witness:
  "calls (fst (generatePhotos envEmpty initialSvc fileP (Some fileM) (Some fileR) ''Luxury'' [] ''soft light'')) =
     [request [inlinePart (Some ''UFBQ'') (Some ''image/png''),
               inlinePart (Some ''UlJS'') (Some ''image/webp''),
               textPart ''Generate 1 product photo that matches the style of the reference photo. The logo, text, shape, and product color must not be altered. The theme should be: Luxury. Additional instructions: soft light.'']] \<and>
   snd (generatePhotos envEmpty initialSvc fileP (Some fileM) (Some fileR) ''Luxury'' [] ''soft light'') = Inr [] \<and>
   snd (generatePhotos envD initialSvc fileP None (Some fileR) ''Luxury'' [] ''soft light'') = Inr [imgD] \<and>
   snd (generatePhotos envDown initialSvc fileP None (Some fileR) ''Luxury'' [] ''soft light'') = Inl (Error ''quota'') \<and>
   generatePhotos envNoKey initialSvc fileP None (Some fileR) ''Luxury'' [] ''soft light'' =
     (initialSvc, Inl (Error ''API_KEY environment variable is not set.''))"
proof -
  have a: "clientAvailable envEmpty initialSvc" "clientAvailable envD initialSvc"
      "clientAvailable envDown initialSvc" "\<not> clientAvailable envNoKey initialSvc"
    by (simp_all add: clientAvailable_def envEmpty_def envD_def envDown_def envNoKey_def initialSvc_def)
  have t: "instructionText_spec M (Some fileR) ''Luxury'' [] ''soft light'' =
     ''Generate 1 product photo that matches the style of the reference photo. The logo, text, shape, and product color must not be altered. The theme should be: Luxury. Additional instructions: soft light.''" for M
    by (simp add: instructionText_spec_def basePrompt_spec_def clauses_spec_def effectiveTheme_spec_def
        themeClause_spec_def extraClause_spec_def)
  have p: "fileToGenerativePart fileP = inlinePart (Some ''UFBQ'') (Some ''image/png'')"
      "fileToGenerativePart fileR = inlinePart (Some ''UlJS'') (Some ''image/webp'')"
    by (simp_all add: fileToGenerativePart_def fileP_def fileR_def jsIndex_def)
  have c: "calls initialSvc = []"
    by (simp add: initialSvc_def)
  have o: "generateContent envEmpty n r = Resolved respNone" "generateContent envD n r = Resolved respD"
      "generateContent envDown n r = Rejected (Error ''quota'')" for n r
    by (simp_all add: envEmpty_def envD_def envDown_def)
  note e = reference_mode_single_call [OF refl, where P = fileP and R = fileR and M = "Some fileM"
        and theme = "''Luxury''" and custom = "[]" and extra = "''soft light''"
        and env = envEmpty and svc = initialSvc]
  note d = reference_mode_single_call [OF refl, where P = fileP and R = fileR and M = None
        and theme = "''Luxury''" and custom = "[]" and extra = "''soft light''"
        and env = envD and svc = initialSvc]
  note dn = reference_mode_single_call [OF refl, where P = fileP and R = fileR and M = None
        and theme = "''Luxury''" and custom = "[]" and extra = "''soft light''"
        and env = envDown and svc = initialSvc]
  note nk = reference_mode_single_call [OF refl, where P = fileP and R = fileR and M = None
        and theme = "''Luxury''" and custom = "[]" and extra = "''soft light''"
        and env = envNoKey and svc = initialSvc]
  have 1: "calls (fst (generatePhotos envEmpty initialSvc fileP (Some fileM) (Some fileR) ''Luxury'' [] ''soft light'')) =
     [request [fileToGenerativePart fileP, fileToGenerativePart fileR,
        textPart (instructionText_spec (Some fileM) (Some fileR) ''Luxury'' [] ''soft light'')]]"
    using e a(1) by (simp add: c)
  have 2: "snd (generatePhotos envEmpty initialSvc fileP (Some fileM) (Some fileR) ''Luxury'' [] ''soft light'') =
     Inr (case imageOf respNone of None \<Rightarrow> [] | Some u \<Rightarrow> [u])"
    using e a(1) o(1) response_shapes(1) by blast
  have 3: "snd (generatePhotos envD initialSvc fileP None (Some fileR) ''Luxury'' [] ''soft light'') =
     Inr (case imageOf respD of None \<Rightarrow> [] | Some u \<Rightarrow> [u])"
    using d a(2) o(2) response_shapes(2) by blast
  have 4: "snd (generatePhotos envDown initialSvc fileP None (Some fileR) ''Luxury'' [] ''soft light'') =
     Inl (Error ''quota'')"
    using dn a(3) o(3) by blast
  have 5: "generatePhotos envNoKey initialSvc fileP None (Some fileR) ''Luxury'' [] ''soft light'' =
     (initialSvc, Inl (Error ''API_KEY environment variable is not set.''))"
    using nk a(4) by blast
  from 1 2 3 4 5 show ?thesis
    by (simp add: t p response_shapes)
qed

text \<open>
  C3 as stated, for every input, fails where no client can be had: with no \<open>API_KEY\<close> and
  no client yet, \<open>getAi\<close> throws and no request is sent.
\<close>

theorem reference_mode_no_client_counterexample:
  "newCalls initialSvc
     (fst (generatePhotos envNoKey initialSvc fileP None (Some fileR) ''Studio'' [] [])) = [] \<and>
   snd (generatePhotos envNoKey initialSvc fileP None (Some fileR) ''Studio'' [] []) =
     Inl (Error ''API_KEY environment variable is not set.'')"
  by (simp add: generatePhotos_def getAi_def envNoKey_def initialSvc_def newCalls_def)

subsection \<open>Model mode and product-only mode\<close>

text \<open>
  C4. With no reference photo, and with the client available, \<open>generatePhotos\<close> sends
  exactly four requests, all the same: the product part, the model part when a model
  photo is present, and one instruction text. If all four calls resolve, with responses
  whose contents have parts, the result is the list of the image URLs of the responses
  that hold an image, in call order, so between 0 and 4 of them. If a call is rejected,
  the result is the rejection of a call, and no rejected call has settled before that one.
  With no client available, \<open>generatePhotos\<close> fails with the message of \<open>getAi\<close> and the
  service state is as before: no request is sent. A returned list never holds more than
  four images. What happens when a response has a content without parts is not part of
  this statement.
\<close>

theorem bulk_mode_four_calls:
  assumes "req = request ((case M of Some mp \<Rightarrow> [fileToGenerativePart P, fileToGenerativePart mp]
                                 | None \<Rightarrow> [fileToGenerativePart P]) @
                 [textPart (instructionText_spec M None theme custom extra)])"
    and "outs = map (\<lambda>k. generateContent env (length (calls svc) + k) req) [0..<4]"
  shows "(clientAvailable env svc \<longrightarrow>
       calls (fst (generatePhotos env svc P M None theme custom extra)) = calls svc @ replicate 4 req \<and>
       (\<forall>rs. outs = map Resolved rs \<and> list_all partsPresent rs \<longrightarrow>
          snd (generatePhotos env svc P M None theme custom extra) = Inr (List.map_filter imageOf rs)) \<and>
       ((\<exists>e. Rejected e \<in> set outs) \<longrightarrow>
          (\<exists>k<4. \<exists>e. outs ! k = Rejected e \<and>
             snd (generatePhotos env svc P M None theme custom extra) = Inl e \<and>
             (\<forall>j<4. \<forall>e'. outs ! j = Rejected e' \<longrightarrow>
                settledAt env (length (calls svc) + k) \<le> settledAt env (length (calls svc) + j))))) \<and>
     (\<not> clientAvailable env svc \<longrightarrow>
       generatePhotos env svc P M None theme custom extra =
         (svc, Inl (Error ''API_KEY environment variable is not set.''))) \<and>
     (\<forall>urls. snd (generatePhotos env svc P M None theme custom extra) = Inr urls \<longrightarrow>
        length urls \<le> 4)"
proof -
  let ?g = "generatePhotos env svc P M None theme custom extra"
  define ps where "ps = map (\<lambda>k. (settledAt env (length (calls svc) + k),
                                    generateContent env (length (calls svc) + k) req)) [0..<4]"
  have snd_ps: "map snd ps = outs"
    by (simp add: ps_def assms(2) comp_def del: upt_Suc)
  have len: "length ps = 4" "length outs = 4"
    by (simp_all add: ps_def assms(2) del: upt_Suc)
  have nth_ps: "ps ! k = (settledAt env (length (calls svc) + k), outs ! k)" if "k < 4" for k
    using that by (simp add: ps_def assms(2) del: upt_Suc)
  have gp: "\<exists>k. ?g = (svc\<lparr>ai := Some k, calls := calls svc @ replicate 4 req\<rparr>,
       case promiseAll ps of
         Inl e \<Rightarrow> Inl e
       | Inr responses \<Rightarrow>
           (case mapThrowing imageUrlOf responses of
              Inl e \<Rightarrow> Inl e
            | Inr urls \<Rightarrow> Inr (filterNonNull urls)))"
    if "clientAvailable env svc"
  proof -
    from getAi_available [OF that] obtain k where "getAi env svc = Inr (svc\<lparr>ai := Some k\<rparr>)" ..
    from generatePhotos_bulk [OF this, where P = P and M = M and theme = theme
        and custom = custom and extra = extra]
    have "?g = (svc\<lparr>ai := Some k, calls := calls svc @ replicate 4 req\<rparr>,
       case promiseAll ps of
         Inl e \<Rightarrow> Inl e
       | Inr responses \<Rightarrow>
           (case mapThrowing imageUrlOf responses of
              Inl e \<Rightarrow> Inl e
            | Inr urls \<Rightarrow> Inr (filterNonNull urls)))"
      by (simp add: Let_def assms(1) ps_def del: upt_Suc)
    then show ?thesis by (intro exI [of _ k])
  qed
  have 1: "calls (fst ?g) = calls svc @ replicate 4 req" if "clientAvailable env svc"
    using gp [OF that] by auto
  have 2: "snd ?g = Inr (List.map_filter imageOf rs)"
    if "clientAvailable env svc" "outs = map Resolved rs \<and> list_all partsPresent rs" for rs
  proof -
    from that(2) snd_ps have "promiseAll ps = Inr rs"
      by (intro promiseAll_resolved) simp
    moreover from that(2) have "mapThrowing imageUrlOf rs = Inr (map imageOf rs)"
      by (intro mapThrowing_ok) simp
    ultimately show ?thesis
      using gp [OF that(1)] by (auto simp: filterNonNull_map_filter)
  qed
  have 3: "\<exists>k<4. \<exists>e. outs ! k = Rejected e \<and> snd ?g = Inl e \<and>
             (\<forall>j<4. \<forall>e'. outs ! j = Rejected e' \<longrightarrow>
                settledAt env (length (calls svc) + k) \<le> settledAt env (length (calls svc) + j))"
    if "clientAvailable env svc" "\<exists>e. Rejected e \<in> set outs"
  proof -
    from that(2) obtain e0 where "Rejected e0 \<in> set (map snd ps)"
      using snd_ps by auto
    then obtain t0 where "(t0, Rejected e0) \<in> set ps" by auto
    from promiseAll_rejected [OF this] obtain e where e: "promiseAll ps = Inl e" ..
    from promiseAll_Inl [OF this] obtain t where
      t: "(t, Rejected e) \<in> set ps" "\<forall>t' e'. (t', Rejected e') \<in> set ps \<longrightarrow> t \<le> t'"
      by blast
    from t(1) obtain k where k: "k < 4" "ps ! k = (t, Rejected e)"
      using len(1) by (auto simp: in_set_conv_nth)
    with nth_ps [of k] have tk: "t = settledAt env (length (calls svc) + k)" "outs ! k = Rejected e"
      by simp_all
    have "settledAt env (length (calls svc) + k) \<le> settledAt env (length (calls svc) + j)"
      if "j < 4" "outs ! j = Rejected e'" for j e'
    proof -
      from that nth_ps [of j] have "ps ! j = (settledAt env (length (calls svc) + j), Rejected e')"
        by simp
      with that(1) len(1) have "(settledAt env (length (calls svc) + j), Rejected e') \<in> set ps"
        by (metis nth_mem)
      with t(2) tk(1) show ?thesis by blast
    qed
    moreover have "snd ?g = Inl e"
      using gp [OF that(1)] e by auto
    ultimately show ?thesis
      using k(1) tk(2) by blast
  qed
  have 4: "?g = (svc, Inl (Error ''API_KEY environment variable is not set.''))"
    if "\<not> clientAvailable env svc"
    using that by (rule generatePhotos_unavailable)
  have 5: "length urls \<le> 4" if "snd ?g = Inr urls" for urls
  proof (cases "clientAvailable env svc")
    case False
    from 4 [OF this] that show ?thesis by simp
  next
    case True
    from gp [OF this] that obtain rs us where
      rs: "promiseAll ps = Inr rs" "mapThrowing imageUrlOf rs = Inr us" "urls = filterNonNull us"
      by (auto split: sum.splits)
    from promiseAll_Inr [OF rs(1)] have "length rs = 4"
      using len(1) by (metis length_map)
    moreover from mapThrowing_Inr [OF rs(2)] rs(3) have "urls = List.map_filter imageOf rs"
      by (simp add: filterNonNull_map_filter)
    ultimately show ?thesis
      using length_map_filter_le [of imageOf rs] by simp
  qed
  from 1 2 3 4 5 show ?thesis by blast
qed

theorem bulk_mode_four_calls_witness:
  "calls (fst (generatePhotos envMixed initialSvc fileP (Some fileM) None ''Studio'' [] [])) =
     replicate 4 (request [inlinePart (Some ''UFBQ'') (Some ''image/png''),
               inlinePart (Some ''TU1N'') (Some ''image/jpeg''),
               textPart ''Generate a professional photo of the provided model holding or wearing the product. Add supporting props to make the photo more appealing. It is absolutely crucial that the model's face remains consistent and unchanged from the source photo. Do not alter the facial features. Create a unique variation with a different body pose, facial expression, lighting, composition, or camera angle. The theme should be: Studio.'']) \<and>
   snd (generatePhotos envMixed initialSvc fileP (Some fileM) None ''Studio'' [] []) =
     Inr [''data:image/png;base64,0'', ''data:image/png;base64,1'', ''data:image/png;base64,3''] \<and>
   calls (fst (generatePhotos envLate initialSvc fileP None None ''Studio'' [] [])) =
     replicate 4 (request [inlinePart (Some ''UFBQ'') (Some ''image/png''),
               textPart ''Generate a professional variation of the product in the image with different lighting, composition, and camera angles. Add supporting props to make the product photo more appealing. The theme should be: Studio.'']) \<and>
   snd (generatePhotos envLate initialSvc fileP None None ''Studio'' [] []) = Inl (Error ''failed 3'') \<and>
   generatePhotos envNoKey initialSvc fileP None None ''Studio'' [] [] =
     (initialSvc, Inl (Error ''API_KEY environment variable is not set.''))"
proof -
  have a: "clientAvailable envMixed initialSvc" "clientAvailable envLate initialSvc"
      "\<not> clientAvailable envNoKey initialSvc"
    by (simp_all add: clientAvailable_def envMixed_def envLate_def envNoKey_def initialSvc_def)
  have t: "instructionText_spec (Some fileM) None ''Studio'' [] [] =
     ''Generate a professional photo of the provided model holding or wearing the product. Add supporting props to make the photo more appealing. It is absolutely crucial that the model's face remains consistent and unchanged from the source photo. Do not alter the facial features. Create a unique variation with a different body pose, facial expression, lighting, composition, or camera angle. The theme should be: Studio.''"
    "instructionText_spec None None ''Studio'' [] [] =
     ''Generate a professional variation of the product in the image with different lighting, composition, and camera angles. Add supporting props to make the product photo more appealing. The theme should be: Studio.''"
    by (simp_all add: instructionText_spec_def basePrompt_spec_def clauses_spec_def effectiveTheme_spec_def
        themeClause_spec_def extraClause_spec_def)
  have p: "fileToGenerativePart fileP = inlinePart (Some ''UFBQ'') (Some ''image/png'')"
      "fileToGenerativePart fileM = inlinePart (Some ''TU1N'') (Some ''image/jpeg'')"
    by (simp_all add: fileToGenerativePart_def fileP_def fileM_def jsIndex_def)
  have c: "calls initialSvc = []"
    by (simp add: initialSvc_def)
  have o: "map (\<lambda>k. generateContent envMixed (length (calls initialSvc) + k) r) [0..<4] =
      map Resolved [respImg ''0'', respImg ''1'', respNone, respImg ''3''] \<and>
      list_all partsPresent [respImg ''0'', respImg ''1'', respNone, respImg ''3'']" for r
    by (simp add: envMixed_def c upt_conv_Cons showNat_small response_shapes)
  have l: "map (\<lambda>k. generateContent envLate (length (calls initialSvc) + k) r) [0..<4] =
      [Resolved respD, Rejected (Error ''failed 1''), Rejected (Error ''failed 2''),
       Rejected (Error ''failed 3'')]" for r
    by (simp add: envLate_def c upt_conv_Cons showNat_small)
  have s: "settledAt envLate (length (calls initialSvc) + k) = 10 - k" for k
    by (simp add: envLate_def c)
  note m = bulk_mode_four_calls [OF refl refl, where P = fileP and M = "Some fileM"
        and theme = "''Studio''" and custom = "[]" and extra = "[]"
        and env = envMixed and svc = initialSvc]
  note lt = bulk_mode_four_calls [OF refl refl, where P = fileP and M = None
        and theme = "''Studio''" and custom = "[]" and extra = "[]"
        and env = envLate and svc = initialSvc]
  note nk = bulk_mode_four_calls [OF refl refl, where P = fileP and M = None
        and theme = "''Studio''" and custom = "[]" and extra = "[]"
        and env = envNoKey and svc = initialSvc]
  have 1: "calls (fst (generatePhotos envMixed initialSvc fileP (Some fileM) None ''Studio'' [] [])) =
     replicate 4 (request [inlinePart (Some ''UFBQ'') (Some ''image/png''),
               inlinePart (Some ''TU1N'') (Some ''image/jpeg''),
               textPart (instructionText_spec (Some fileM) None ''Studio'' [] [])])"
    using m a(1) by (simp add: p c)
  have 2: "snd (generatePhotos envMixed initialSvc fileP (Some fileM) None ''Studio'' [] []) =
     Inr (List.map_filter imageOf [respImg ''0'', respImg ''1'', respNone, respImg ''3''])"
    using m a(1) o by blast
  have 3: "calls (fst (generatePhotos envLate initialSvc fileP None None ''Studio'' [] [])) =
     replicate 4 (request [inlinePart (Some ''UFBQ'') (Some ''image/png''),
               textPart (instructionText_spec None None ''Studio'' [] [])])"
    using lt a(2) by (simp add: p c)
  have 4: "snd (generatePhotos envLate initialSvc fileP None None ''Studio'' [] []) = Inl (Error ''failed 3'')"
  proof -
    let ?outs = "[Resolved respD, Rejected (Error ''failed 1''), Rejected (Error ''failed 2''),
       Rejected (Error ''failed 3'')]"
    have "\<exists>e. Rejected e \<in> set ?outs" by auto
    with lt [unfolded l s] a(2) obtain k e where
      k: "k < 4" "?outs ! k = Rejected e"
        "snd (generatePhotos envLate initialSvc fileP None None ''Studio'' [] []) = Inl e"
        "\<forall>j<4. \<forall>e'. ?outs ! j = Rejected e' \<longrightarrow> (10::nat) - k \<le> 10 - j"
      by blast
    from k(4) have "(10::nat) - k \<le> 10 - 3"
      by (elim allE [of _ 3] allE [of _ "Error ''failed 3''"]) simp
    with k(1) have "k = 3" by simp
    with k(2) have "e = Error ''failed 3''" by simp
    with k(3) show ?thesis by simp
  qed
  have 5: "generatePhotos envNoKey initialSvc fileP None None ''Studio'' [] [] =
     (initialSvc, Inl (Error ''API_KEY environment variable is not set.''))"
    using nk a(3) by blast
  from 1 2 3 4 5 show ?thesis
    by (simp add: t response_shapes List.map_filter_simps)
qed

text \<open>
  C4 as stated, for every input, fails where no client can be had: no request is sent.
\<close>

theorem bulk_mode_no_client_counterexample:
  "newCalls initialSvc
     (fst (generatePhotos envNoKey initialSvc fileP (Some fileM) None ''Studio'' [] [])) = [] \<and>
   snd (generatePhotos envNoKey initialSvc fileP (Some fileM) None ''Studio'' [] []) =
     Inl (Error ''API_KEY environment variable is not set.'')"
  by (simp add: generatePhotos_def getAi_def envNoKey_def initialSvc_def newCalls_def)

subsection \<open>The instruction text\<close>

text \<open>
  C5. Every request that \<open>generatePhotos\<close> sends carries, as its last part, the
  instruction text of the specification: the base text of the mode, followed by the theme
  clause and the clause of the additional instructions. The effective theme is the custom
  theme when the theme is \<open>None\<close> and the theme otherwise. The theme clause is among the
  clauses exactly when the effective theme is not empty, and the clause of the additional
  instructions exactly when these are not empty.
\<close>

theorem instruction_text_clauses:
  "(\<forall>req \<in> set (newCalls svc (fst (generatePhotos env svc P M R theme custom extra))).
      \<exists>ps. parts (contents req) = Some ps \<and>
        text_p (last ps) = Some (instructionText_spec M R theme custom extra)) \<and>
   (themeClause_spec (effectiveTheme_spec theme custom) \<in> set (clauses_spec theme custom extra)
      \<longleftrightarrow> effectiveTheme_spec theme custom \<noteq> []) \<and>
   (extraClause_spec extra \<in> set (clauses_spec theme custom extra) \<longleftrightarrow> extra \<noteq> [])"
proof -
  have 1: "\<forall>req \<in> set (newCalls svc (fst (generatePhotos env svc P M R theme custom extra))).
      \<exists>ps. parts (contents req) = Some ps \<and>
        text_p (last ps) = Some (instructionText_spec M R theme custom extra)"
  proof (cases rule: generatePhotos_cases [of env svc P M R theme custom extra])
    case unavailable
    then show ?thesis by (simp add: newCalls_def)
  next
    case (reference k rp req)
    then show ?thesis by (simp add: newCalls_def request_def textPart_def)
  next
    case (bulk k req)
    then show ?thesis by (simp add: newCalls_def request_def textPart_def)
  qed
  have 2: "themeClause_spec (effectiveTheme_spec theme custom) \<in> set (clauses_spec theme custom extra)
      \<longleftrightarrow> effectiveTheme_spec theme custom \<noteq> []"
    by (simp add: clauses_spec_def themeClause_spec_def extraClause_spec_def)
  have 3: "extraClause_spec extra \<in> set (clauses_spec theme custom extra) \<longleftrightarrow> extra \<noteq> []"
    by (simp add: clauses_spec_def themeClause_spec_def extraClause_spec_def)
  from 1 2 3 show ?thesis by blast
qed

lemma generatePhotos_neon:
  "generatePhotos envD initialSvc fileP None None ''None'' ''Neon'' [] =
     (\<lparr>ai = Some ''key'',
       calls = replicate 4 (request [fileToGenerativePart fileP,
                 textPart (instructionText_spec None None ''None'' ''Neon'' [])])\<rparr>,
      Inr [imgD, imgD, imgD, imgD])"
  by code_simp

lemma generatePhotos_plain:
  "generatePhotos envD initialSvc fileP None (Some fileR) ''None'' [] ''no shadows'' =
     (\<lparr>ai = Some ''key'',
       calls = [request [fileToGenerativePart fileP, fileToGenerativePart fileR,
                 textPart (instructionText_spec None (Some fileR) ''None'' [] ''no shadows'')]]\<rparr>,
      Inr [imgD])"
  by code_simp

theorem instruction_text_clauses_witness:
  "newCalls initialSvc (fst (generatePhotos envD initialSvc fileP None None ''None'' ''Neon'' [])) \<noteq> [] \<and>
   map_option (\<lambda>ps. text_p (last ps)) (parts (contents (hd (newCalls initialSvc
       (fst (generatePhotos envD initialSvc fileP None None ''None'' ''Neon'' [])))))) =
     Some (Some ''Generate a professional variation of the product in the image with different lighting, composition, and camera angles. Add supporting props to make the product photo more appealing. The theme should be: Neon.'') \<and>
   themeClause_spec ''Neon'' \<in> set (clauses_spec ''None'' ''Neon'' []) \<and>
   extraClause_spec [] \<notin> set (clauses_spec ''None'' ''Neon'' []) \<and>
   map_option (\<lambda>ps. text_p (last ps)) (parts (contents (hd (newCalls initialSvc
       (fst (generatePhotos envD initialSvc fileP None (Some fileR) ''None'' [] ''no shadows'')))))) =
     Some (Some ''Generate 1 product photo that matches the style of the reference photo. The logo, text, shape, and product color must not be altered. Additional instructions: no shadows.'') \<and>
   themeClause_spec [] \<notin> set (clauses_spec ''None'' [] ''no shadows'') \<and>
   extraClause_spec ''no shadows'' \<in> set (clauses_spec ''None'' [] ''no shadows'')"
proof -
  let ?neon = "newCalls initialSvc (fst (generatePhotos envD initialSvc fileP None None ''None'' ''Neon'' []))"
  let ?plain = "newCalls initialSvc
      (fst (generatePhotos envD initialSvc fileP None (Some fileR) ''None'' [] ''no shadows''))"
  have "calls initialSvc = []"
    by (simp add: initialSvc_def)
  then have ne: "?neon \<noteq> []" "?plain \<noteq> []"
    by (simp_all add: generatePhotos_neon generatePhotos_plain newCalls_def)
  then have mem: "hd ?neon \<in> set ?neon" "hd ?plain \<in> set ?plain"
    by simp_all
  have e: "effectiveTheme_spec ''None'' ''Neon'' = ''Neon''" "effectiveTheme_spec ''None'' [] = []"
    by (simp_all add: effectiveTheme_spec_def)
  have t: "instructionText_spec None None ''None'' ''Neon'' [] =
      ''Generate a professional variation of the product in the image with different lighting, composition, and camera angles. Add supporting props to make the product photo more appealing. The theme should be: Neon.''"
    "instructionText_spec None (Some fileR) ''None'' [] ''no shadows'' =
      ''Generate 1 product photo that matches the style of the reference photo. The logo, text, shape, and product color must not be altered. Additional instructions: no shadows.''"
    by (simp_all add: instructionText_spec_def basePrompt_spec_def clauses_spec_def effectiveTheme_spec_def
        themeClause_spec_def extraClause_spec_def)
  note neon = instruction_text_clauses [where svc = initialSvc and env = envD and P = fileP and M = None
      and R = None and theme = "''None''" and custom = "''Neon''" and extra = "[]"]
  note plain = instruction_text_clauses [where svc = initialSvc and env = envD and P = fileP and M = None
      and R = "Some fileR" and theme = "''None''" and custom = "[]" and extra = "''no shadows''"]
  have "\<exists>ps. parts (contents (hd ?neon)) = Some ps \<and>
      text_p (last ps) = Some (instructionText_spec None None ''None'' ''Neon'' [])"
    using neon mem(1) by blast
  then have 1: "map_option (\<lambda>ps. text_p (last ps)) (parts (contents (hd ?neon))) =
      Some (Some (instructionText_spec None None ''None'' ''Neon'' []))"
    by auto
  have "\<exists>ps. parts (contents (hd ?plain)) = Some ps \<and>
      text_p (last ps) = Some (instructionText_spec None (Some fileR) ''None'' [] ''no shadows'')"
    using plain mem(2) by blast
  then have 2: "map_option (\<lambda>ps. text_p (last ps)) (parts (contents (hd ?plain))) =
      Some (Some (instructionText_spec None (Some fileR) ''None'' [] ''no shadows''))"
    by auto
  have 3: "themeClause_spec ''Neon'' \<in> set (clauses_spec ''None'' ''Neon'' [])"
      "extraClause_spec [] \<notin> set (clauses_spec ''None'' ''Neon'' [])"
    using neon by (simp_all add: e)
  have 4: "themeClause_spec [] \<notin> set (clauses_spec ''None'' [] ''no shadows'')"
      "extraClause_spec ''no shadows'' \<in> set (clauses_spec ''None'' [] ''no shadows'')"
    using plain by (simp_all add: e)
  from ne(1) 1 2 3 4 show ?thesis by (simp only: t) blast
qed

subsection \<open>The returned images\<close>

lemma returned_images_of_resolved_calls:
  assumes "generatePhotos env svc P M R theme custom extra = (svc', Inr urls)"
  shows "\<exists>responses. outcomesOf env svc svc' = map Resolved responses \<and>
           list_all partsPresent responses \<and> urls = List.map_filter imageOf responses"
proof (cases rule: generatePhotos_cases [of env svc P M R theme custom extra])
  case unavailable
  with assms show ?thesis by simp
next
  case (reference k rp req)
  with assms have svc': "calls svc' = calls svc @ [req]" by auto
  from reference(3) assms obtain response u where
    r: "generateContent env (length (calls svc)) req = Resolved response"
    "imageUrlOf response = Inr u" "urls = (case u of None \<Rightarrow> [] | Some v \<Rightarrow> [v])"
    by (auto split: Outcome.splits sum.splits)
  from imageUrlOf_Inr [OF r(2)] r(3) have "partsPresent response"
      "urls = List.map_filter imageOf [response]"
    by (simp_all add: List.map_filter_simps split: option.splits)
  with r(1) show ?thesis
    by (intro exI [of _ "[response]"]) (simp add: outcomesOf_append [OF svc'])
next
  case (bulk k req)
  with assms have svc': "calls svc' = calls svc @ replicate 4 req" by auto
  let ?ps = "map (\<lambda>k. (settledAt env (length (calls svc) + k),
                        generateContent env (length (calls svc) + k) req)) [0..<4]"
  from bulk(3) assms obtain responses us where
    r: "promiseAll ?ps = Inr responses" "mapThrowing imageUrlOf responses = Inr us"
      "urls = filterNonNull us"
    by (auto split: sum.splits)
  have "outcomesOf env svc svc' = map snd ?ps"
    by (simp add: outcomesOf_append [OF svc'] comp_def del: upt_Suc cong: map_cong)
  with promiseAll_Inr [OF r(1)] have "outcomesOf env svc svc' = map Resolved responses"
    by simp
  moreover from mapThrowing_Inr [OF r(2)] r(3) have "list_all partsPresent responses"
      "urls = List.map_filter imageOf responses"
    by (simp_all add: filterNonNull_map_filter)
  ultimately show ?thesis by blast
qed

lemma partless_response_throws:
  assumes "clientAvailable env svc"
    and "req = request ((case M of Some mp \<Rightarrow> [fileToGenerativePart P, fileToGenerativePart mp]
                                 | None \<Rightarrow> [fileToGenerativePart P]) @
                 [textPart (instructionText_spec M None theme custom extra)])"
    and "map (\<lambda>k. generateContent env (length (calls svc) + k) req) [0..<4] = map Resolved rs"
    and "\<not> list_all partsPresent rs"
  shows "snd (generatePhotos env svc P M None theme custom extra) =
     Inl (TypeError ''Cannot read properties of undefined (reading 'find')'')"
proof -
  from getAi_available [OF assms(1)] obtain k where "getAi env svc = Inr (svc\<lparr>ai := Some k\<rparr>)" ..
  note g = generatePhotos_bulk [OF this, where P = P and M = M and theme = theme
        and custom = custom and extra = extra]
  have "map snd (map (\<lambda>k. (settledAt env (length (calls svc) + k),
      generateContent env (length (calls svc) + k) req)) [0..<4]) = map Resolved rs"
    using assms(3) by (simp add: comp_def del: upt_Suc)
  from promiseAll_resolved [OF this] mapThrowing_partless [OF assms(4)] show ?thesis
    unfolding g Let_def assms(2) [symmetric] by simp
qed

lemma generatePhotos_mixed:
  "generatePhotos envMixed initialSvc fileP None None ''Studio'' [] [] =
     (\<lparr>ai = Some ''key'',
       calls = replicate 4 (request [fileToGenerativePart fileP,
                 textPart (instructionText_spec None None ''Studio'' [] [])])\<rparr>,
      Inr [''data:image/png;base64,0'', ''data:image/png;base64,1'', ''data:image/png;base64,3''])"
  by code_simp

lemma generatePhotos_partless:
  "generatePhotos envPartless initialSvc fileP None None ''Studio'' [] [] =
     (\<lparr>ai = Some ''key'',
       calls = replicate 4 (request [fileToGenerativePart fileP,
                 textPart (instructionText_spec None None ''Studio'' [] [])])\<rparr>,
      Inl (TypeError ''Cannot read properties of undefined (reading 'find')''))"
  by code_simp

text \<open>
  C6. A generation from the product photo alone, where all four calls resolve: the
  first, second and fourth response carry an image, the third has a content without
  parts. The claim has the third call dropped and the three images returned in call
  order. \<open>generatePhotos\<close> throws a \<open>TypeError\<close> instead and returns no image: the chain
  \<open>candidates?.[0]?.content?.parts.find\<close> guards every step but \<open>parts\<close>. Where the third
  response has parts but no image among them, the call is dropped and the three images
  are returned in call order, as claimed.
\<close>

theorem partless_response_loses_batch:
  "outcomesOf envPartless initialSvc
      (fst (generatePhotos envPartless initialSvc fileP None None ''Studio'' [] [])) =
     [Resolved (respImg ''0''), Resolved (respImg ''1''), Resolved respPartless, Resolved (respImg ''3'')] \<and>
   snd (generatePhotos envPartless initialSvc fileP None None ''Studio'' [] []) =
     Inl (TypeError ''Cannot read properties of undefined (reading 'find')'') \<and>
   outcomesOf envMixed initialSvc
      (fst (generatePhotos envMixed initialSvc fileP None None ''Studio'' [] [])) =
     [Resolved (respImg ''0''), Resolved (respImg ''1''), Resolved respNone, Resolved (respImg ''3'')] \<and>
   snd (generatePhotos envMixed initialSvc fileP None None ''Studio'' [] []) =
     Inr [''data:image/png;base64,0'', ''data:image/png;base64,1'', ''data:image/png;base64,3'']"
proof -
  have c: "calls initialSvc = []"
    by (simp add: initialSvc_def)
  have g: "generateContent envPartless =
        (\<lambda>n req. if n = 2 then Resolved respPartless else Resolved (respImg (showNat n)))"
      "generateContent envMixed =
        (\<lambda>n req. if n = 2 then Resolved respNone else Resolved (respImg (showNat n)))"
    by (simp_all add: envPartless_def envMixed_def)
  have 1: "outcomesOf envPartless initialSvc
      (fst (generatePhotos envPartless initialSvc fileP None None ''Studio'' [] [])) =
     [Resolved (respImg ''0''), Resolved (respImg ''1''), Resolved respPartless, Resolved (respImg ''3'')]"
    by (simp add: generatePhotos_partless outcomesOf_def c g upt_conv_Cons showNat_small)
  have 2: "outcomesOf envMixed initialSvc
      (fst (generatePhotos envMixed initialSvc fileP None None ''Studio'' [] [])) =
     [Resolved (respImg ''0''), Resolved (respImg ''1''), Resolved respNone, Resolved (respImg ''3'')]"
    by (simp add: generatePhotos_mixed outcomesOf_def c g upt_conv_Cons showNat_small)
  from 1 2 show ?thesis
    by (simp only: generatePhotos_partless generatePhotos_mixed snd_conv simp_thms)
qed

section \<open>Generation from the page\<close>

text \<open>
  C7. Without a product photo, \<open>handleGenerateClick\<close> sets the error message
  \<open>Product photo is required.\<close> and does nothing else: the service is not called (no client
  is built, no request is sent), and the results and the history stay as they were.
\<close>

theorem generate_requires_product_photo:
  assumes "productPhoto app = None"
  shows "handleGenerateClick env now (svc, app) = (svc, app\<lparr>error := Some ''Product photo is required.''\<rparr>)"
  using assms by (simp add: handleGenerateClick_def)

theorem generate_requires_product_photo_witness:
  "handleGenerateClick envD (\<lambda>k. 7) (initialSvc, initialApp) =
     (\<lparr>ai = None, calls = []\<rparr>,
      \<lparr>productPhoto = None, modelPhoto = None, referencePhoto = None,
       activeTheme = ''Studio'', customTheme = [], additionalCommands = [],
       isLoading = False, results = [], history = [],
       error = Some ''Product photo is required.'', zoomedImage = None\<rparr>)"
proof -
  have "productPhoto initialApp = None" by (simp add: initialApp_def)
  from generate_requires_product_photo [OF this, of envD "\<lambda>k. 7" initialSvc]
  show ?thesis by (simp add: initialApp_def initialSvc_def)
qed

section \<open>Refinement: one call, and failure leaves the entry alone\<close>










lemma handleRefinement_no_call:
  assumes "findIndex (\<lambda>r. id_r r = rid) (results app) = -1 \<or> trim command = []"
  shows "handleRefinement env (svc, app) rid command during = (svc, app)"
  using assms by (auto simp: handleRefinement_def)





section \<open>The list of batches\<close>

lemma handleGenerateClick_success:
  assumes "productPhoto app = Some pp"
    and "generatePhotos env svc (file_i pp) (map_option file_i (modelPhoto app))
           (map_option file_i (referencePhoto app)) (activeTheme app) (customTheme app)
           (additionalCommands app) = (svc', Inr imgs)"
  shows "handleGenerateClick env now (svc, app) =
     (svc', app\<lparr>isLoading := False, error := None, results := newResultsOf now imgs,
              history := (if imgs = [] then history app
                          else \<lparr>id_h = ''history-'' @ showNat (now (length imgs)),
                                results_h = newResultsOf now imgs\<rparr> # history app)\<rparr>)"
proof -
  have "length (newResultsOf now imgs) = length imgs"
    by (simp add: newResultsOf_def length_mapIndex)
  then have "(0 < length (newResultsOf now imgs)) = (imgs \<noteq> [])"
    by simp
  then show ?thesis
    using assms by (simp add: handleGenerateClick_def Let_def)
qed

lemma handleGenerateClick_failure:
  assumes "productPhoto app = Some pp"
    and "generatePhotos env svc (file_i pp) (map_option file_i (modelPhoto app))
           (map_option file_i (referencePhoto app)) (activeTheme app) (customTheme app)
           (additionalCommands app) = (svc', Inl e)"
  shows "handleGenerateClick env now (svc, app) =
     (svc', app\<lparr>isLoading := False, error := Some (messageOf e), results := []\<rparr>)"
  using assms by (simp add: handleGenerateClick_def Let_def)

lemma history_handleGenerateClick:
  "history (snd (handleGenerateClick env now (svc, app))) = history app \<or>
   (\<exists>b. history (snd (handleGenerateClick env now (svc, app))) = b # history app)"
proof (cases "productPhoto app")
  case None
  then show ?thesis by (simp add: handleGenerateClick_def)
next
  case (Some pp)
  define g where "g = generatePhotos env svc (file_i pp) (map_option file_i (modelPhoto app))
           (map_option file_i (referencePhoto app)) (activeTheme app) (customTheme app)
           (additionalCommands app)"
  show ?thesis
  proof (cases "snd g")
    case (Inl e)
    then have "g = (fst g, Inl e)" by (metis prod.collapse)
    from handleGenerateClick_failure [OF Some this [unfolded g_def], of now]
    show ?thesis by simp
  next
    case (Inr imgs)
    then have "g = (fst g, Inr imgs)" by (metis prod.collapse)
    from handleGenerateClick_success [OF Some this [unfolded g_def], of now]
    show ?thesis by (simp)
  qed
qed

lemma history_deliver: "history (deliver app e) = history app"
  by (cases e) (simp_all add: handleModelPhotoChange_def handleReferencePhotoChange_def
      handleThemeClick_def customThemeInput_def handleUndo_def handleRedo_def
      handleRefinementPromptChange_def selectHistoryItem_def Let_def)

lemma history_foldl_deliver: "history (foldl deliver app es) = history app"
  by (induction es arbitrary: app) (simp_all add: history_deliver)

lemma history_handleRefinement:
  "history (snd (handleRefinement env (svc, app) rid command during)) = history app"
  by (simp add: handleRefinement_def Let_def history_foldl_deliver split: prod.splits sum.splits)

lemma history_step:
  "history (snd (step env s a)) = history (snd s) \<or>
   (\<exists>b. history (snd (step env s a)) = b # history (snd s))"
proof (cases s)
  case (Pair svc app)
  show ?thesis
  proof (cases a)
    case (GenerateClick now)
    with Pair history_handleGenerateClick [of env now svc app] show ?thesis by simp
  next
    case (Refinement rid command during)
    with Pair show ?thesis by (simp add: history_handleRefinement)
  next
    case (Deliver e)
    with Pair show ?thesis by (simp add: history_deliver)
  qed
qed

lemma suffix_history_step: "suffix (history (snd s)) (history (snd (step env s a)))"
  using history_step [of env s a] by (auto simp: suffix_def)

lemma suffix_history_foldl: "suffix (history (snd s)) (history (snd (foldl (step env) s as)))"
proof (induction as rule: rev_induct)
  case Nil
  then show ?case by simp
next
  case (snoc a as)
  have "suffix (history (snd (foldl (step env) s as)))
      (history (snd (step env (foldl (step env) s as) a)))"
    by (rule suffix_history_step)
  with snoc show ?case
    by (simp del: step.simps)
qed

text \<open>
  C9. When \<open>generatePhotos\<close> returns images, \<open>handleGenerateClick\<close> makes the entries built
  from them the current results and, if there is at least one image, puts a new history
  item holding these entries in front of the history; with no image the history stays as
  it was. No event removes or reorders history items: the history before an event is a
  suffix of the history after it, and so along every run, which keeps the list ordered
  from the most recent batch to the oldest.
\<close>

theorem record_batch_prepends:
  "(productPhoto app = Some pp \<and>
    generatePhotos env svc (file_i pp) (map_option file_i (modelPhoto app))
      (map_option file_i (referencePhoto app)) (activeTheme app) (customTheme app)
      (additionalCommands app) = (svc', Inr imgs) \<longrightarrow>
      results (snd (handleGenerateClick env now (svc, app))) = newResultsOf now imgs \<and>
      history (snd (handleGenerateClick env now (svc, app))) =
        (if imgs = [] then history app
         else \<lparr>id_h = ''history-'' @ showNat (now (length imgs)),
               results_h = newResultsOf now imgs\<rparr> # history app)) \<and>
   suffix (history (snd s)) (history (snd (step env s a))) \<and>
   suffix (history (snd (run env acts))) (history (snd (run env (acts @ later))))"
proof (intro conjI impI)
  assume a: "productPhoto app = Some pp \<and>
    generatePhotos env svc (file_i pp) (map_option file_i (modelPhoto app))
      (map_option file_i (referencePhoto app)) (activeTheme app) (customTheme app)
      (additionalCommands app) = (svc', Inr imgs)"
  then have h: "handleGenerateClick env now (svc, app) =
     (svc', app\<lparr>isLoading := False, error := None, results := newResultsOf now imgs,
              history := (if imgs = [] then history app
                          else \<lparr>id_h = ''history-'' @ showNat (now (length imgs)),
                                results_h = newResultsOf now imgs\<rparr> # history app)\<rparr>)"
    using handleGenerateClick_success by blast
  show "results (snd (handleGenerateClick env now (svc, app))) = newResultsOf now imgs"
    by (simp add: h)
  show "history (snd (handleGenerateClick env now (svc, app))) =
        (if imgs = [] then history app
         else \<lparr>id_h = ''history-'' @ showNat (now (length imgs)),
               results_h = newResultsOf now imgs\<rparr> # history app)"
    by (simp add: h)
next
  show "suffix (history (snd s)) (history (snd (step env s a)))"
    by (rule suffix_history_step)
next
  show "suffix (history (snd (run env acts))) (history (snd (run env (acts @ later))))"
    by (simp add: run_def suffix_history_foldl del: step.simps)
qed

lemma generatePhotos_appProduct:
  "generatePhotos envMixed initialSvc (file_i productP) (map_option file_i (modelPhoto appProduct))
      (map_option file_i (referencePhoto appProduct)) (activeTheme appProduct) (customTheme appProduct)
      (additionalCommands appProduct) =
     (fst (generatePhotos envMixed initialSvc (file_i productP) None None ''Studio'' [] []),
      Inr [''data:image/png;base64,0'', ''data:image/png;base64,1'', ''data:image/png;base64,3''])"
  by code_simp

lemma generatePhotos_appRef:
  "generatePhotos envEmpty initialSvc (file_i productP) (map_option file_i (modelPhoto appRef))
      (map_option file_i (referencePhoto appRef)) (activeTheme appRef) (customTheme appRef)
      (additionalCommands appRef) =
     (fst (generatePhotos envEmpty initialSvc (file_i productP) None (Some fileR) ''Studio'' [] []),
      Inr [])"
  by code_simp

lemma newResultsOf_three:
  "newResultsOf (\<lambda>k. 7) [''data:image/png;base64,0'', ''data:image/png;base64,1'', ''data:image/png;base64,3''] =
     [\<lparr>id_r = ''result-7-0'', imageHistory = [''data:image/png;base64,0''], currentIndex = 0,
       refinementPrompt = []\<rparr>,
      \<lparr>id_r = ''result-7-1'', imageHistory = [''data:image/png;base64,1''], currentIndex = 0,
       refinementPrompt = []\<rparr>,
      \<lparr>id_r = ''result-7-2'', imageHistory = [''data:image/png;base64,3''], currentIndex = 0,
       refinementPrompt = []\<rparr>]"
  by code_simp

theorem record_batch_prepends_witness:
  "results (snd (handleGenerateClick envMixed (\<lambda>k. 7) (initialSvc, appProduct))) =
     [\<lparr>id_r = ''result-7-0'', imageHistory = [''data:image/png;base64,0''], currentIndex = 0,
       refinementPrompt = []\<rparr>,
      \<lparr>id_r = ''result-7-1'', imageHistory = [''data:image/png;base64,1''], currentIndex = 0,
       refinementPrompt = []\<rparr>,
      \<lparr>id_r = ''result-7-2'', imageHistory = [''data:image/png;base64,3''], currentIndex = 0,
       refinementPrompt = []\<rparr>] \<and>
   history (snd (handleGenerateClick envMixed (\<lambda>k. 7) (initialSvc, appProduct))) =
     [\<lparr>id_h = ''history-7'',
       results_h =
         [\<lparr>id_r = ''result-7-0'', imageHistory = [''data:image/png;base64,0''], currentIndex = 0,
           refinementPrompt = []\<rparr>,
          \<lparr>id_r = ''result-7-1'', imageHistory = [''data:image/png;base64,1''], currentIndex = 0,
           refinementPrompt = []\<rparr>,
          \<lparr>id_r = ''result-7-2'', imageHistory = [''data:image/png;base64,3''], currentIndex = 0,
           refinementPrompt = []\<rparr>]\<rparr>] \<and>
   history (snd (handleGenerateClick envEmpty (\<lambda>k. 7) (initialSvc, appRef))) = [] \<and>
   suffix (history appProduct)
     (history (snd (step envMixed (initialSvc, appProduct) (GenerateClick (\<lambda>k. 7))))) \<and>
   suffix (history (snd (run envD sessionActs)))
     (history (snd (run envD (sessionActs @ [GenerateClick (\<lambda>k. 8)]))))"
proof -
  have p: "productPhoto appProduct = Some productP" "productPhoto appRef = Some productP"
    by (simp_all add: appProduct_def appRef_def)
  have h: "history appProduct = []" "history appRef = []"
    by (simp_all add: appProduct_def appRef_def initialApp_def)
  have s7: "showNat 7 = ''7''" "length [''data:image/png;base64,0'', ''data:image/png;base64,1'', ''data:image/png;base64,3''] = 3"
    by (simp_all add: showNat_small)
  note mixed = record_batch_prepends [where app = appProduct and pp = productP and env = envMixed
      and svc = initialSvc and now = "\<lambda>k. 7"
      and svc' = "fst (generatePhotos envMixed initialSvc (file_i productP) None None ''Studio'' [] [])"
      and imgs = "[''data:image/png;base64,0'', ''data:image/png;base64,1'', ''data:image/png;base64,3'']"
      and s = "(initialSvc, appProduct)" and a = "GenerateClick (\<lambda>k. 7)"
      and acts = sessionActs and later = "[GenerateClick (\<lambda>k. 8)]"]
  note empty = record_batch_prepends [where app = appRef and pp = productP and env = envEmpty
      and svc = initialSvc and now = "\<lambda>k. 7"
      and svc' = "fst (generatePhotos envEmpty initialSvc (file_i productP) None (Some fileR) ''Studio'' [] [])"
      and imgs = "[]" and s = "(initialSvc, appRef)" and a = "GenerateClick (\<lambda>k. 7)"
      and acts = "[]" and later = "[]"]
  have 1: "results (snd (handleGenerateClick envMixed (\<lambda>k. 7) (initialSvc, appProduct))) =
      newResultsOf (\<lambda>k. 7) [''data:image/png;base64,0'', ''data:image/png;base64,1'', ''data:image/png;base64,3'']"
    using mixed p(1) generatePhotos_appProduct by blast
  have 2: "history (snd (handleGenerateClick envMixed (\<lambda>k. 7) (initialSvc, appProduct))) =
      [\<lparr>id_h = ''history-7'', results_h = newResultsOf (\<lambda>k. 7)
          [''data:image/png;base64,0'', ''data:image/png;base64,1'', ''data:image/png;base64,3'']\<rparr>]"
    using mixed p(1) generatePhotos_appProduct by (simp add: h s7)
  have 3: "history (snd (handleGenerateClick envEmpty (\<lambda>k. 7) (initialSvc, appRef))) = []"
    using empty p(2) generatePhotos_appRef by (simp add: h)
  have 4: "suffix (history appProduct)
     (history (snd (step envMixed (initialSvc, appProduct) (GenerateClick (\<lambda>k. 7)))))"
    using mixed by (simp del: step.simps)
  have 5: "suffix (history (snd (run envD sessionActs)))
     (history (snd (run envD (sessionActs @ [GenerateClick (\<lambda>k. 8)]))))"
    using record_batch_prepends [where env = envD and acts = sessionActs
        and later = "[GenerateClick (\<lambda>k. 8)]"] by blast
  from 1 2 3 4 5 show ?thesis
    by (simp only: newResultsOf_three simp_thms)
qed

text \<open>
  C9 as stated, for every successful generation, fails for a generation that succeeds
  with no image: in reference mode with a response that carries no image, no error is
  set, the results are empty and no history item is recorded.
\<close>

theorem empty_generation_records_no_batch_counterexample:
  "snd (generatePhotos envEmpty initialSvc (file_i productP) None (Some fileR) ''Studio'' [] []) = Inr [] \<and>
   error (snd (handleGenerateClick envEmpty (\<lambda>k. 7) (initialSvc, appRef))) = None \<and>
   results (snd (handleGenerateClick envEmpty (\<lambda>k. 7) (initialSvc, appRef))) = [] \<and>
   history (snd (handleGenerateClick envEmpty (\<lambda>k. 7) (initialSvc, appRef))) = []"
  by code_simp

section \<open>Recorded batches are not written\<close>

lemma heapExt_refl: "heapExt h h"
  by (simp add: heapExt_def)

lemma heapExt_trans: "heapExt h1 h2 \<Longrightarrow> heapExt h2 h3 \<Longrightarrow> heapExt h1 h3"
  by (auto simp: heapExt_def)

lemma heapExt_allocUrlArray: "heapExt h (fst (allocUrlArray xs h))"
  by (simp add: heapExt_def allocUrlArray_def)

lemma heapExt_allocResultObj: "heapExt h (fst (allocResultObj ob h))"
  by (simp add: heapExt_def allocResultObj_def)

lemma heapExt_allocResultArray: "heapExt h (fst (allocResultArray rs h))"
  by (simp add: heapExt_def allocResultArray_def)

lemma readEntry_ext:
  assumes "heapExt h h'" "presentEntry h r"
  shows "readEntry h' r = readEntry h r" and "presentEntry h' r"
  using assms by (auto simp: heapExt_def presentEntry_def readEntry_def Let_def)

lemma presentEntries_ext:
  assumes "heapExt h h'" "list_all (presentEntry h) rs"
  shows "list_all (presentEntry h') rs" and "map (readEntry h') rs = map (readEntry h) rs"
  using assms readEntry_ext by (auto simp: list_all_iff)

lemma readResults_ext:
  assumes "heapExt h h'" "presentResults h a"
  shows "readResults h' a = readResults h a" and "presentResults h' a"
proof -
  from assms have a: "a < lim h" "resultArrays h' a = resultArrays h a"
    by (auto simp: presentResults_def heapExt_def)
  from assms have p: "list_all (presentEntry h) (resultArrays h a)"
    by (simp add: presentResults_def)
  show "readResults h' a = readResults h a"
    by (simp add: readResults_def a presentEntries_ext(2) [OF assms(1) p])
  show "presentResults h' a"
    using a assms(1) presentEntries_ext(1) [OF assms(1) p]
    by (auto simp: presentResults_def heapExt_def)
qed

text \<open>The callbacks: what they allocate, and what the new object reads as.\<close>

lemma refineEntryH_sim:
  assumes "presentEntry h r"
  shows "heapExt h (fst (refineEntryH u r h))"
    and "presentEntry (fst (refineEntryH u r h)) (snd (refineEntryH u r h))"
    and "readEntry (fst (refineEntryH u r h)) (snd (refineEntryH u r h)) = refineEntry u (readEntry h r)"
    and "lim h \<le> snd (refineEntryH u r h)"
  by (simp_all add: refineEntryH_def sliceH_def pushH_def allocUrlArray_def allocResultObj_def
      heapExt_def presentEntry_def readEntry_def refineEntry_def Let_def)

lemma spread_sim:
  assumes "presentEntry h r"
    and "imageHistory_o ob = imageHistory_o (resultObjs h r)"
  shows "heapExt h (fst (allocResultObj ob h))"
    and "presentEntry (fst (allocResultObj ob h)) (snd (allocResultObj ob h))"
    and "readEntry (fst (allocResultObj ob h)) (snd (allocResultObj ob h)) =
           \<lparr>id_r = id_o ob, imageHistory = urlArrays h (imageHistory_o ob),
            currentIndex = currentIndex_o ob, refinementPrompt = refinementPrompt_o ob\<rparr>"
  using assms
  by (simp_all add: allocResultObj_def heapExt_def presentEntry_def readEntry_def Let_def)

lemma mapRefsFrom_sim:
  assumes cb: "\<And>r i h. presentEntry h r \<Longrightarrow>
      heapExt h (fst (f r i h)) \<and> presentEntry (fst (f r i h)) (snd (f r i h)) \<and>
      readEntry (fst (f r i h)) (snd (f r i h)) = g (readEntry h r) i"
    and "list_all (presentEntry h) rs"
  shows "heapExt h (fst (mapRefsFrom i f rs h)) \<and>
     list_all (presentEntry (fst (mapRefsFrom i f rs h))) (snd (mapRefsFrom i f rs h)) \<and>
     map (readEntry (fst (mapRefsFrom i f rs h))) (snd (mapRefsFrom i f rs h)) =
       mapIndexFrom i g (map (readEntry h) rs)"
  using assms(2)
proof (induction rs arbitrary: i h)
  case Nil
  then show ?case by (simp add: heapExt_refl)
next
  case (Cons r rs)
  obtain h1 r' where f: "f r i h = (h1, r')" by (cases "f r i h")
  obtain h2 rs' where m: "mapRefsFrom (Suc i) f rs h1 = (h2, rs')"
    by (cases "mapRefsFrom (Suc i) f rs h1")
  from Cons.prems have pr: "presentEntry h r" and prs: "list_all (presentEntry h) rs"
    by simp_all
  from cb [OF pr, of i] f have 1: "heapExt h h1" "presentEntry h1 r'"
      "readEntry h1 r' = g (readEntry h r) i"
    by simp_all
  from presentEntries_ext [OF 1(1) prs] have prs1: "list_all (presentEntry h1) rs"
      and rd1: "map (readEntry h1) rs = map (readEntry h) rs"
    by simp_all
  from Cons.IH [OF prs1, of "Suc i"] m have 2: "heapExt h1 h2" "list_all (presentEntry h2) rs'"
      "map (readEntry h2) rs' = mapIndexFrom (Suc i) g (map (readEntry h1) rs)"
    by simp_all
  from readEntry_ext [OF 2(1) 1(2)] have 3: "readEntry h2 r' = readEntry h1 r'" "presentEntry h2 r'"
    by simp_all
  have "mapRefsFrom i f (r # rs) h = (h2, r' # rs')"
    by (simp add: f m)
  with 1 2 3 rd1 heapExt_trans [OF 1(1) 2(1)] show ?case
    by simp
qed

lemma mapResultArray_sim:
  assumes cb: "\<And>r i h. presentEntry h r \<Longrightarrow>
      heapExt h (fst (f r i h)) \<and> presentEntry (fst (f r i h)) (snd (f r i h)) \<and>
      readEntry (fst (f r i h)) (snd (f r i h)) = g (readEntry h r) i"
    and "presentResults h a"
  shows "heapExt h (fst (mapResultArray f a h))"
    and "presentResults (fst (mapResultArray f a h)) (snd (mapResultArray f a h))"
    and "readResults (fst (mapResultArray f a h)) (snd (mapResultArray f a h)) =
           mapIndex g (readResults h a)"
    and "lim h \<le> snd (mapResultArray f a h)"
proof -
  obtain h1 rs' where m: "mapRefsFrom 0 f (resultArrays h a) h = (h1, rs')"
    by (cases "mapRefsFrom 0 f (resultArrays h a) h")
  from assms(2) have p: "list_all (presentEntry h) (resultArrays h a)"
    by (simp add: presentResults_def)
  from mapRefsFrom_sim [of f g, OF cb p, of 0] m
  have 1: "heapExt h h1" "list_all (presentEntry h1) rs'"
      "map (readEntry h1) rs' = mapIndex g (readResults h a)"
    by (simp_all add: mapIndex_def readResults_def)
  have r: "mapResultArray f a h = allocResultArray rs' h1"
    by (simp add: mapResultArray_def m)
  have e: "heapExt h1 (fst (allocResultArray rs' h1))"
    by (rule heapExt_allocResultArray)
  show "heapExt h (fst (mapResultArray f a h))"
    using heapExt_trans [OF 1(1) e] by (simp add: r)
  from presentEntries_ext [OF e 1(2)]
  have 2: "list_all (presentEntry (fst (allocResultArray rs' h1))) rs'"
      "map (readEntry (fst (allocResultArray rs' h1))) rs' = map (readEntry h1) rs'"
    by simp_all
  have 3: "resultArrays (fst (allocResultArray rs' h1)) (snd (allocResultArray rs' h1)) = rs'"
      "snd (allocResultArray rs' h1) < lim (fst (allocResultArray rs' h1))"
      "snd (allocResultArray rs' h1) = lim h1"
    by (simp_all add: allocResultArray_def)
  show "presentResults (fst (mapResultArray f a h)) (snd (mapResultArray f a h))"
    using 2(1) 3 by (simp add: r presentResults_def)
  show "readResults (fst (mapResultArray f a h)) (snd (mapResultArray f a h)) =
           mapIndex g (readResults h a)"
    using 2(2) 3 1(3) by (simp add: r readResults_def)
  show "lim h \<le> snd (mapResultArray f a h)"
    using 1(1) 3(3) by (simp add: r heapExt_def)
qed

lemma mapIndexFrom_map: "mapIndexFrom i (\<lambda>x k. g x) xs = map g xs"
  by (induction xs arbitrary: i) simp_all

lemma applyUpdateH_sim:
  assumes "presentResults h a"
  shows "heapExt h (fst (applyUpdateH u a h))"
    and "presentResults (fst (applyUpdateH u a h)) (snd (applyUpdateH u a h))"
    and "readResults (fst (applyUpdateH u a h)) (snd (applyUpdateH u a h)) =
           applyUpdate u (readResults h a)"
    and "lim h \<le> snd (applyUpdateH u a h)"
proof -
  have "heapExt h (fst (applyUpdateH u a h)) \<and>
     presentResults (fst (applyUpdateH u a h)) (snd (applyUpdateH u a h)) \<and>
     readResults (fst (applyUpdateH u a h)) (snd (applyUpdateH u a h)) =
           applyUpdate u (readResults h a) \<and>
     lim h \<le> snd (applyUpdateH u a h)"
  proof (cases u)
    case (RefineU k url)
    let ?f = "\<lambda>r index h. if int index \<noteq> k then (h, r) else refineEntryH url r h"
    let ?g = "\<lambda>res index. if int index \<noteq> k then res else refineEntry url res"
    have cb: "heapExt h (fst (?f r i h)) \<and> presentEntry (fst (?f r i h)) (snd (?f r i h)) \<and>
        readEntry (fst (?f r i h)) (snd (?f r i h)) = ?g (readEntry h r) i"
      if "presentEntry h r" for r i h
      using that refineEntryH_sim [OF that, of url] by (simp add: heapExt_refl)
    from mapResultArray_sim [of ?f ?g, OF cb assms] RefineU show ?thesis
      by (simp add: refinementUpdaterH_def refinementUpdater_def)
  next
    case (UndoU rid)
    let ?f = "\<lambda>r index h. (let res = resultObjs h r
           in if id_o res = rid
              then allocResultObj (res\<lparr>currentIndex_o := max 0 (currentIndex_o res - 1)\<rparr>) h
              else (h, r))"
    let ?g = "\<lambda>res (index::nat). if id_r res = rid then undoEntry res else res"
    have cb: "heapExt h (fst (?f r i h)) \<and> presentEntry (fst (?f r i h)) (snd (?f r i h)) \<and>
        readEntry (fst (?f r i h)) (snd (?f r i h)) = ?g (readEntry h r) i"
      if "presentEntry h r" for r i h
      using that spread_sim [OF that, of "(resultObjs h r)\<lparr>currentIndex_o := max 0 (currentIndex_o (resultObjs h r) - 1)\<rparr>"]
      by (simp add: heapExt_refl Let_def undoEntry_def readEntry_def)
    from mapResultArray_sim [of ?f ?g, OF cb assms] UndoU show ?thesis
      by (simp add: undoUpdaterH_def undoUpdater_def mapIndex_def mapIndexFrom_map)
  next
    case (RedoU rid)
    let ?f = "\<lambda>r index h. (let res = resultObjs h r
           in if id_o res = rid
              then allocResultObj
                     (res\<lparr>currentIndex_o :=
                            min (int (length (urlArrays h (imageHistory_o res))) - 1)
                                (currentIndex_o res + 1)\<rparr>) h
              else (h, r))"
    let ?g = "\<lambda>res (index::nat). if id_r res = rid then redoEntry res else res"
    have cb: "heapExt h (fst (?f r i h)) \<and> presentEntry (fst (?f r i h)) (snd (?f r i h)) \<and>
        readEntry (fst (?f r i h)) (snd (?f r i h)) = ?g (readEntry h r) i"
      if "presentEntry h r" for r i h
      using that spread_sim [OF that, of "(resultObjs h r)\<lparr>currentIndex_o :=
                            min (int (length (urlArrays h (imageHistory_o (resultObjs h r)))) - 1)
                                (currentIndex_o (resultObjs h r) + 1)\<rparr>"]
      by (simp add: heapExt_refl Let_def redoEntry_def readEntry_def)
    from mapResultArray_sim [of ?f ?g, OF cb assms] RedoU show ?thesis
      by (simp add: redoUpdaterH_def redoUpdater_def mapIndex_def mapIndexFrom_map)
  next
    case (PromptU rid prompt)
    let ?f = "\<lambda>r index h. (let res = resultObjs h r
           in if id_o res = rid
              then allocResultObj (res\<lparr>refinementPrompt_o := prompt\<rparr>) h
              else (h, r))"
    let ?g = "\<lambda>res (index::nat). if id_r res = rid then res\<lparr>refinementPrompt := prompt\<rparr> else res"
    have cb: "heapExt h (fst (?f r i h)) \<and> presentEntry (fst (?f r i h)) (snd (?f r i h)) \<and>
        readEntry (fst (?f r i h)) (snd (?f r i h)) = ?g (readEntry h r) i"
      if "presentEntry h r" for r i h
      using that spread_sim [OF that, of "(resultObjs h r)\<lparr>refinementPrompt_o := prompt\<rparr>"]
      by (simp add: heapExt_refl Let_def readEntry_def)
    from mapResultArray_sim [of ?f ?g, OF cb assms] PromptU show ?thesis
      by (simp add: promptUpdaterH_def promptUpdater_def mapIndex_def mapIndexFrom_map)
  qed
  then show "heapExt h (fst (applyUpdateH u a h))"
    and "presentResults (fst (applyUpdateH u a h)) (snd (applyUpdateH u a h))"
    and "readResults (fst (applyUpdateH u a h)) (snd (applyUpdateH u a h)) =
           applyUpdate u (readResults h a)"
    and "lim h \<le> snd (applyUpdateH u a h)"
    by simp_all
qed

lemma newEntriesFrom_sim:
  "heapExt h (fst (newEntriesFrom i now urls h)) \<and>
   list_all (presentEntry (fst (newEntriesFrom i now urls h))) (snd (newEntriesFrom i now urls h)) \<and>
   map (readEntry (fst (newEntriesFrom i now urls h))) (snd (newEntriesFrom i now urls h)) =
     mapIndexFrom i (\<lambda>url index.
         \<lparr>id_r = ''result-'' @ showNat (now index) @ ''-'' @ showNat index,
          imageHistory = [url], currentIndex = 0, refinementPrompt = []\<rparr>) urls"
proof (induction urls arbitrary: i h)
  case Nil
  then show ?case by (simp add: heapExt_refl)
next
  case (Cons url urls)
  define h1 where "h1 = fst (allocUrlArray [url] h)"
  define ob where "ob = \<lparr>id_o = ''result-'' @ showNat (now i) @ ''-'' @ showNat i,
      imageHistory_o = lim h, currentIndex_o = 0, refinementPrompt_o = []\<rparr>"
  define h2 where "h2 = fst (allocResultObj ob h1)"
  define r where "r = lim h1"
  obtain h3 rs where m: "newEntriesFrom (Suc i) now urls h2 = (h3, rs)"
    by (cases "newEntriesFrom (Suc i) now urls h2")
  have e: "newEntriesFrom i now (url # urls) h = (h3, r # rs)"
    by (simp add: allocUrlArray_def allocResultObj_def h1_def h2_def ob_def r_def m [unfolded h2_def h1_def ob_def allocUrlArray_def allocResultObj_def, simplified])
  have 12: "heapExt h h2"
    unfolding h2_def h1_def
    by (rule heapExt_trans [OF heapExt_allocUrlArray heapExt_allocResultObj])
  have pr: "presentEntry h2 r" "readEntry h2 r =
      \<lparr>id_r = ''result-'' @ showNat (now i) @ ''-'' @ showNat i,
       imageHistory = [url], currentIndex = 0, refinementPrompt = []\<rparr>"
    by (simp_all add: presentEntry_def readEntry_def h2_def h1_def r_def ob_def
        allocUrlArray_def allocResultObj_def)
  from Cons.IH [where h = h2 and i = "Suc i"] m have 3: "heapExt h2 h3" "list_all (presentEntry h3) rs"
      "map (readEntry h3) rs = mapIndexFrom (Suc i) (\<lambda>url index.
         \<lparr>id_r = ''result-'' @ showNat (now index) @ ''-'' @ showNat index,
          imageHistory = [url], currentIndex = 0, refinementPrompt = []\<rparr>) urls"
    by simp_all
  from readEntry_ext [OF 3(1) pr(1)] pr(2) have 4: "presentEntry h3 r" "readEntry h3 r =
      \<lparr>id_r = ''result-'' @ showNat (now i) @ ''-'' @ showNat i,
       imageHistory = [url], currentIndex = 0, refinementPrompt = []\<rparr>"
    by simp_all
  from heapExt_trans [OF 12 3(1)] 3 4 show ?case
    unfolding e fst_conv snd_conv by simp
qed

lemma newResultsH_sim:
  shows "heapExt h (fst (newResultsH now imgs h))"
    and "presentResults (fst (newResultsH now imgs h)) (snd (newResultsH now imgs h))"
    and "readResults (fst (newResultsH now imgs h)) (snd (newResultsH now imgs h)) =
           newResultsOf now imgs"
    and "lim h \<le> snd (newResultsH now imgs h)"
proof -
  obtain h1 rs where m: "newEntriesFrom 0 now imgs h = (h1, rs)"
    by (cases "newEntriesFrom 0 now imgs h")
  from newEntriesFrom_sim [where h = h and i = 0 and now = now and urls = imgs] m
  have 1: "heapExt h h1" "list_all (presentEntry h1) rs"
      "map (readEntry h1) rs = newResultsOf now imgs"
    by (simp_all add: newResultsOf_def mapIndex_def)
  have r: "newResultsH now imgs h = allocResultArray rs h1"
    by (simp add: newResultsH_def m)
  have e: "heapExt h1 (fst (allocResultArray rs h1))"
    by (rule heapExt_allocResultArray)
  from presentEntries_ext [OF e 1(2)]
  have 2: "list_all (presentEntry (fst (allocResultArray rs h1))) rs"
      "map (readEntry (fst (allocResultArray rs h1))) rs = map (readEntry h1) rs"
    by simp_all
  have 3: "resultArrays (fst (allocResultArray rs h1)) (snd (allocResultArray rs h1)) = rs"
      "snd (allocResultArray rs h1) < lim (fst (allocResultArray rs h1))"
      "snd (allocResultArray rs h1) = lim h1"
    by (simp_all add: allocResultArray_def)
  show "heapExt h (fst (newResultsH now imgs h))"
    using heapExt_trans [OF 1(1) e] by (simp add: r)
  show "presentResults (fst (newResultsH now imgs h)) (snd (newResultsH now imgs h))"
    using 2(1) 3 by (simp add: r presentResults_def)
  show "readResults (fst (newResultsH now imgs h)) (snd (newResultsH now imgs h)) =
           newResultsOf now imgs"
    using 2(2) 3 1(3) by (simp add: r readResults_def)
  show "lim h \<le> snd (newResultsH now imgs h)"
    using 1(1) 3(3) by (simp add: r heapExt_def)
qed

lemma stepH_facts:
  assumes "wfH (h, st)"
  shows "heapExt h (fst (stepH (h, st) ev))"
    and "wfH (stepH (h, st) ev)"
    and "suffix (history_a st) (history_a (snd (stepH (h, st) ev)))"
proof -
  from assms have pr: "presentResults h (results_a st)"
      and ph: "list_all (\<lambda>item. presentResults h (snd item)) (history_a st)"
    by (simp_all add: wfH_def)
  have keep: "list_all (\<lambda>item. presentResults h' (snd item)) (history_a st)" if "heapExt h h'" for h'
    using ph readResults_ext(2) [OF that] by (auto simp: list_all_iff)
  have "heapExt h (fst (stepH (h, st) ev)) \<and> wfH (stepH (h, st) ev) \<and>
      suffix (history_a st) (history_a (snd (stepH (h, st) ev)))"
  proof (cases ev)
    case (UpdateE u)
    obtain h' a where u: "applyUpdateH u (results_a st) h = (h', a)"
      by (cases "applyUpdateH u (results_a st) h")
    from applyUpdateH_sim [OF pr, of u] u have "heapExt h h'" "presentResults h' a"
      by simp_all
    with keep [of h'] UpdateE u show ?thesis
      by (simp add: wfH_def)
  next
    case ClearE
    have "heapExt h (fst (allocResultArray [] h))"
      by (rule heapExt_allocResultArray)
    moreover have "presentResults (fst (allocResultArray [] h)) (snd (allocResultArray [] h))"
      by (simp add: presentResults_def allocResultArray_def)
    ultimately show ?thesis
      using keep [of "fst (allocResultArray [] h)"] ClearE
      by (simp add: wfH_def split_beta)
  next
    case (RecordE now imgs)
    obtain h' a where n: "newResultsH now imgs h = (h', a)"
      by (cases "newResultsH now imgs h")
    from newResultsH_sim [where h = h and now = now and imgs = imgs] n have "heapExt h h'" "presentResults h' a"
      by simp_all
    with keep [of h'] RecordE n show ?thesis
      by (simp add: wfH_def suffix_ConsI Let_def)
  next
    case (SelectE k)
    with pr ph show ?thesis
      by (auto simp: wfH_def heapExt_refl list_all_length)
  qed
  then show "heapExt h (fst (stepH (h, st) ev))"
    and "wfH (stepH (h, st) ev)"
    and "suffix (history_a st) (history_a (snd (stepH (h, st) ev)))"
    by simp_all
qed

lemma runH_facts:
  assumes "wfH s"
  shows "heapExt (fst s) (fst (foldl stepH s evs)) \<and> wfH (foldl stepH s evs) \<and>
     suffix (history_a (snd s)) (history_a (snd (foldl stepH s evs)))"
proof (induction evs rule: rev_induct)
  case Nil
  then show ?case by (simp add: heapExt_refl assms)
next
  case (snoc ev evs)
  obtain h' st' where s': "foldl stepH s evs = (h', st')"
    by (cases "foldl stepH s evs")
  with snoc have 1: "heapExt (fst s) h'" "wfH (h', st')" "suffix (history_a (snd s)) (history_a st')"
    by simp_all
  from stepH_facts [OF 1(2), of ev]
  have 2: "heapExt h' (fst (stepH (h', st') ev))" "wfH (stepH (h', st') ev)"
      "suffix (history_a st') (history_a (snd (stepH (h', st') ev)))"
    by simp_all
  from heapExt_trans [OF 1(1) 2(1)] 2(2) suffix_order.trans [OF 1(3) 2(3)]
  show ?case by (simp add: s' del: stepH.simps)
qed

lemma wfH_initial: "wfH (initialHeap, initialAppH)"
  by (simp add: wfH_def initialHeap_def initialAppH_def presentResults_def)

text \<open>
  C10. From a well-formed state of the store, whatever events follow (updates of the
  current result set by refinement, undo, redo and prompt change, recordings of new
  generations, clicks on history items): no cell that was allocated is written, every
  recorded history item reads as the same entries as before (the same image histories,
  current indices and refinement prompts), and the history only grows at the front. An
  update leaves the history alone, puts the new result set into a newly allocated array,
  never into the old one, and that array reads as the value-level updater applied to the
  old result set. This holds also when the current result set is the very array of a
  history item. Every state reached from the first render is well formed.
\<close>

theorem recorded_batches_unchanged:
  "(wfH (h, st) \<longrightarrow>
      heapExt h (fst (foldl stepH (h, st) evs)) \<and>
      (\<forall>item \<in> set (history_a st).
         readItem (fst (foldl stepH (h, st) evs)) item = readItem h item) \<and>
      suffix (history_a st) (history_a (snd (foldl stepH (h, st) evs))) \<and>
      history_a (snd (stepH (h, st) (UpdateE u))) = history_a st \<and>
      lim h \<le> results_a (snd (stepH (h, st) (UpdateE u))) \<and>
      readResults (fst (stepH (h, st) (UpdateE u))) (results_a (snd (stepH (h, st) (UpdateE u)))) =
        applyUpdate u (readResults h (results_a st))) \<and>
   wfH (foldl stepH (initialHeap, initialAppH) evs)"
proof (intro conjI impI ballI)
  assume wf: "wfH (h, st)"
  from runH_facts [OF wf, of evs]
  show ext: "heapExt h (fst (foldl stepH (h, st) evs))"
    and "suffix (history_a st) (history_a (snd (foldl stepH (h, st) evs)))"
    by simp_all
  obtain h' a where u: "applyUpdateH u (results_a st) h = (h', a)"
    by (cases "applyUpdateH u (results_a st) h")
  from wf have pr: "presentResults h (results_a st)"
    by (simp add: wfH_def)
  from applyUpdateH_sim [OF pr, of u] u
  show "history_a (snd (stepH (h, st) (UpdateE u))) = history_a st"
    and "lim h \<le> results_a (snd (stepH (h, st) (UpdateE u)))"
    and "readResults (fst (stepH (h, st) (UpdateE u))) (results_a (snd (stepH (h, st) (UpdateE u)))) =
        applyUpdate u (readResults h (results_a st))"
    by simp_all
  fix item
  assume "item \<in> set (history_a st)"
  with wf have "presentResults h (snd item)"
    by (simp add: wfH_def list_all_iff)
  from readResults_ext(1) [OF ext this]
  show "readItem (fst (foldl stepH (h, st) evs)) item = readItem h item"
    by (simp add: readItem_def)
next
  from runH_facts [OF wfH_initial, of evs]
  show "wfH (foldl stepH (initialHeap, initialAppH) evs)"
    by simp
qed

lemma sharedState_app: "snd sharedState = \<lparr>results_a = 5, history_a = [(''history-7'', 5)]\<rparr>"
  by code_simp

lemma sharedState_item:
  "readItem (fst sharedState) (''history-7'', 5) =
     \<lparr>id_h = ''history-7'',
      results_h =
        [\<lparr>id_r = ''result-7-0'', imageHistory = [imgA], currentIndex = 0, refinementPrompt = []\<rparr>,
         \<lparr>id_r = ''result-7-1'', imageHistory = [imgB], currentIndex = 0, refinementPrompt = []\<rparr>]\<rparr>"
  by code_simp

lemma laterEvents_results:
  "readResults (fst (foldl stepH sharedState laterEvents))
      (results_a (snd (foldl stepH sharedState laterEvents))) =
     [\<lparr>id_r = ''result-7-0'', imageHistory = [imgA, imgD], currentIndex = 0, refinementPrompt = []\<rparr>,
      \<lparr>id_r = ''result-7-1'', imageHistory = [imgB], currentIndex = 0,
       refinementPrompt = ''warmer''\<rparr>]"
  by code_simp

theorem recorded_batches_unchanged_witness:
  "results_a (snd sharedState) = 5 \<and>
   history_a (snd sharedState) = [(''history-7'', 5)] \<and>
   readItem (fst (foldl stepH sharedState laterEvents)) (''history-7'', 5) =
     \<lparr>id_h = ''history-7'',
      results_h =
        [\<lparr>id_r = ''result-7-0'', imageHistory = [imgA], currentIndex = 0, refinementPrompt = []\<rparr>,
         \<lparr>id_r = ''result-7-1'', imageHistory = [imgB], currentIndex = 0, refinementPrompt = []\<rparr>]\<rparr> \<and>
   readResults (fst (foldl stepH sharedState laterEvents))
      (results_a (snd (foldl stepH sharedState laterEvents))) =
     [\<lparr>id_r = ''result-7-0'', imageHistory = [imgA, imgD], currentIndex = 0, refinementPrompt = []\<rparr>,
      \<lparr>id_r = ''result-7-1'', imageHistory = [imgB], currentIndex = 0,
       refinementPrompt = ''warmer''\<rparr>] \<and>
   suffix [(''history-7'', 5)] (history_a (snd (foldl stepH sharedState laterEvents))) \<and>
   lim (fst sharedState) \<le>
     results_a (snd (stepH sharedState (UpdateE (UndoU ''result-7-0'')))) \<and>
   readResults (fst (stepH sharedState (UpdateE (UndoU ''result-7-0''))))
      (results_a (snd (stepH sharedState (UpdateE (UndoU ''result-7-0''))))) =
     applyUpdate (UndoU ''result-7-0'') (readResults (fst sharedState) 5)"
proof -
  have wf: "wfH (fst sharedState, snd sharedState)"
    using recorded_batches_unchanged [where evs = "[RecordE (\<lambda>k. 7) [imgA, imgB], SelectE 0]"]
    by (simp add: sharedState_def del: stepH.simps)
  have mem: "(''history-7'', 5) \<in> set (history_a (snd sharedState))"
    by (simp add: sharedState_app)
  note t = recorded_batches_unchanged [where h = "fst sharedState" and st = "snd sharedState"
      and evs = laterEvents and u = "UndoU ''result-7-0''"]
  have 1: "readItem (fst (foldl stepH sharedState laterEvents)) (''history-7'', 5) =
      readItem (fst sharedState) (''history-7'', 5)"
    using t wf mem by (simp del: stepH.simps)
  have 2: "suffix (history_a (snd sharedState)) (history_a (snd (foldl stepH sharedState laterEvents)))"
    using t wf by (simp del: stepH.simps)
  have 3: "lim (fst sharedState) \<le>
      results_a (snd (stepH sharedState (UpdateE (UndoU ''result-7-0''))))"
    "readResults (fst (stepH sharedState (UpdateE (UndoU ''result-7-0''))))
      (results_a (snd (stepH sharedState (UpdateE (UndoU ''result-7-0''))))) =
     applyUpdate (UndoU ''result-7-0'') (readResults (fst sharedState) (results_a (snd sharedState)))"
    using t wf by (simp_all del: stepH.simps applyUpdate.simps)
  have 4: "results_a (snd sharedState) = 5" "history_a (snd sharedState) = [(''history-7'', 5)]"
    by (simp_all add: sharedState_app)
  from 1 2 3 show ?thesis
    by (simp only: 4 sharedState_item laterEvents_results simp_thms)
qed

end
